theory Spec2Isabelle
  imports Complex_Main
begin

section \<open>JavaScript numbers and strings\<close>

text \<open>
  The engine computes on JavaScript \<open>number\<close>s. The price bars reach it through
  \<open>JSON.parse\<close> (\<open>fmp-service.ts\<close>), which yields finite numbers only, so the fields of a
  bar are modelled as \<open>real\<close>. Inside the engine the values \<open>-Infinity\<close> and
  \<open>Infinity\<close> are written as sentinels, and a division by zero yields an infinity or
  \<open>NaN\<close>, so every computed value is a \<open>number\<close>: one of the three special values or a
  finite one. A finite number is idealised as a real: the rounding error of double precision,
  overflow to an infinity and the sign of zero are not modelled.
\<close>

datatype number = NaN | NegInfinity | Fin real | PosInfinity

text \<open>The relational operators \<open><\<close>, \<open>>\<close>, \<open><=\<close>, \<open>>=\<close> and \<open>===\<close>:
  every comparison with \<open>NaN\<close> is false.\<close>

fun num_lt :: "number \<Rightarrow> number \<Rightarrow> bool" where
  "num_lt (Fin x) (Fin y) = (x < y)"
| "num_lt NegInfinity (Fin y) = True"
| "num_lt NegInfinity PosInfinity = True"
| "num_lt (Fin x) PosInfinity = True"
| "num_lt _ _ = False"

definition num_gt :: "number \<Rightarrow> number \<Rightarrow> bool" where
  "num_gt a b = num_lt b a"

definition num_le :: "number \<Rightarrow> number \<Rightarrow> bool" where
  "num_le a b = (a \<noteq> NaN \<and> b \<noteq> NaN \<and> \<not> num_lt b a)"

definition num_ge :: "number \<Rightarrow> number \<Rightarrow> bool" where
  "num_ge a b = num_le b a"

definition num_eq :: "number \<Rightarrow> number \<Rightarrow> bool" where
  "num_eq a b = (a \<noteq> NaN \<and> a = b)"

text \<open>Arithmetic: \<open>-a\<close>, \<open>a + b\<close>, \<open>a - b\<close>, \<open>a * b\<close>, \<open>a / b\<close> and
  \<open>Math.abs\<close>.\<close>

fun num_neg :: "number \<Rightarrow> number" where
  "num_neg NaN = NaN"
| "num_neg NegInfinity = PosInfinity"
| "num_neg (Fin x) = Fin (- x)"
| "num_neg PosInfinity = NegInfinity"

fun num_add :: "number \<Rightarrow> number \<Rightarrow> number" where
  "num_add NaN b = NaN"
| "num_add a NaN = NaN"
| "num_add (Fin x) (Fin y) = Fin (x + y)"
| "num_add (Fin x) b = b"
| "num_add a (Fin y) = a"
| "num_add a b = (if a = b then a else NaN)"

definition num_sub :: "number \<Rightarrow> number \<Rightarrow> number" where
  "num_sub a b = num_add a (num_neg b)"

fun num_mul :: "number \<Rightarrow> number \<Rightarrow> number" where
  "num_mul NaN b = NaN"
| "num_mul a NaN = NaN"
| "num_mul (Fin x) (Fin y) = Fin (x * y)"
| "num_mul (Fin x) b = (if x = 0 then NaN else if 0 < x then b else num_neg b)"
| "num_mul a (Fin y) = (if y = 0 then NaN else if 0 < y then a else num_neg a)"
| "num_mul a b = (if a = b then PosInfinity else NegInfinity)"

fun num_div :: "number \<Rightarrow> number \<Rightarrow> number" where
  "num_div NaN b = NaN"
| "num_div a NaN = NaN"
| "num_div (Fin x) (Fin y) =
     (if y \<noteq> 0 then Fin (x / y)
      else if x = 0 then NaN
      else if 0 < x then PosInfinity else NegInfinity)"
| "num_div (Fin x) b = Fin 0"
| "num_div a (Fin y) = (if 0 \<le> y then a else num_neg a)"
| "num_div a b = NaN"

fun num_abs :: "number \<Rightarrow> number" where
  "num_abs NaN = NaN"
| "num_abs (Fin x) = Fin \<bar>x\<bar>"
| "num_abs a = PosInfinity"

text \<open>
  \<open>x.toFixed(f)\<close> for a finite \<open>x\<close> with \<open>\<bar>x\<bar> < 10^21\<close> prints the sign and the
  digits of the integer \<open>n\<close> for which \<open>n / 10^f - \<bar>x\<bar>\<close> is as close to zero as possible,
  the larger \<open>n\<close> when there are two (ECMAScript, Number.prototype.toFixed); from \<open>10^21\<close>
  on it prints the number itself, and \<open>NaN\<close> and the infinities print their names.
  \<open>parseFloat\<close> reads each of these strings back, so the composition is modelled as one
  function on numbers.
\<close>

definition toFixed_n :: "nat \<Rightarrow> real \<Rightarrow> int" where
  "toFixed_n f x =
     (let k = \<lfloor>x * 10 ^ f\<rfloor> in
      if real_of_int (k + 1) - x * 10 ^ f \<le> x * 10 ^ f - real_of_int k then k + 1 else k)"

fun parseFloat_toFixed :: "nat \<Rightarrow> number \<Rightarrow> number" where
  "parseFloat_toFixed f (Fin x) =
     (if 10 ^ 21 \<le> \<bar>x\<bar> then Fin x
      else if x < 0 then Fin (- (real_of_int (toFixed_n f (- x)) / 10 ^ f))
      else Fin (real_of_int (toFixed_n f x) / 10 ^ f))"
| "parseFloat_toFixed f a = a"

text \<open>Strings compare by code unit, the shorter string first when it is a prefix.\<close>

fun str_lt :: "string \<Rightarrow> string \<Rightarrow> bool" where
  "str_lt [] [] = False"
| "str_lt [] (y # ys) = True"
| "str_lt (x # xs) [] = False"
| "str_lt (x # xs) (y # ys) =
     (if (of_char x :: nat) < of_char y then True
      else if (of_char y :: nat) < of_char x then False
      else str_lt xs ys)"

text \<open>\<open>toUpperCase\<close>, on the ASCII letters a ticker symbol is made of.\<close>

definition toUpperCase :: "string \<Rightarrow> string" where
  "toUpperCase s =
     map (\<lambda>c. let n = (of_char c :: nat) in
               if 97 \<le> n \<and> n \<le> 122 then char_of (n - 32) else c) s"

text \<open>\<open>xs.slice(a, b)\<close> for \<open>0 \<le> a\<close>; the end is clamped to the length of the array.\<close>

definition slice :: "'a list \<Rightarrow> nat \<Rightarrow> nat \<Rightarrow> 'a list" where
  "slice xs a b = take (b - a) (drop a xs)"

text \<open>\<open>xs[i]\<close> is \<open>undefined\<close> out of range; reading a property of it throws.\<close>

definition nth_opt :: "'a list \<Rightarrow> nat \<Rightarrow> 'a option" where
  "nth_opt xs i = (if i < length xs then Some (xs ! i) else None)"

text \<open>
  The exceptions of the engine. \<open>EmptyInputError\<close> is the \<open>Error\<close> that
  \<open>detectSwingPoints\<close> throws on an empty array ("Price data is empty"); \<open>TypeError\<close> is
  what the runtime throws when a property of \<open>undefined\<close> is read or an empty array is
  reduced without an initial value.
\<close>

datatype error = EmptyInputError | TypeError

section \<open>Types of \<open>fibonacci-logic.ts\<close>\<close>

record HistoricalPrice =
  hp_date :: string
  hp_open :: real
  hp_high :: real
  hp_low :: real
  hp_close :: real
  hp_volume :: real

datatype TrendDirection = Uptrend | Downtrend

datatype ThemeStatus = Success | Warning | Danger

record SwingPoint =
  sp_price :: number
  sp_date :: string

record SwingPoints =
  swingHigh :: SwingPoint
  swingLow :: SwingPoint

record FibRatio =
  fr_ratio :: number
  fr_label :: string
  fr_friendlyName :: string
  fr_trafficLight :: ThemeStatus

record FibLevel =
  fl_ratio :: number
  fl_label :: string
  fl_friendlyName :: string
  fl_price :: number
  fl_isGoldenZone :: bool
  fl_trafficLight :: ThemeStatus

text \<open>The result of \<open>analyzeTicker\<close>. The two display texts \<open>signalReason\<close> and
  \<open>narrative\<close> are fixed sentences with dates and prices filled in
  (\<open>getTrendNarrative\<close> formats them with \<open>toLocaleDateString\<close> and \<open>toFixed\<close>, which
  return a string for every date string and every number); no decision reads them and they
  are left out.\<close>

record FibLevels =
  fls_ticker :: string
  fls_trend :: TrendDirection
  fls_trendFriendly :: string
  fls_high :: SwingPoint
  fls_low :: SwingPoint
  fls_range :: number
  fls_levels :: "FibLevel list"
  fls_currentPrice :: number
  fls_signal :: ThemeStatus

section \<open>Swing detection\<close>

text \<open>The body of the loop \<open>for (const bar of prices)\<close> of \<open>detectSwingPoints\<close>.\<close>

definition scanBar :: "SwingPoints \<Rightarrow> HistoricalPrice \<Rightarrow> SwingPoints" where
  "scanBar s bar =
     (let s1 = (if num_gt (Fin (hp_high bar)) (sp_price (swingHigh s))
                then s\<lparr>swingHigh := \<lparr>sp_price = Fin (hp_high bar), sp_date = hp_date bar\<rparr>\<rparr>
                else s)
      in if num_lt (Fin (hp_low bar)) (sp_price (swingLow s1))
         then s1\<lparr>swingLow := \<lparr>sp_price = Fin (hp_low bar), sp_date = hp_date bar\<rparr>\<rparr>
         else s1)"

definition initSwing :: SwingPoints where
  "initSwing = \<lparr>swingHigh = \<lparr>sp_price = NegInfinity, sp_date = ''''\<rparr>,
                swingLow = \<lparr>sp_price = PosInfinity, sp_date = ''''\<rparr>\<rparr>"

text \<open>\<open>xs.reduce(f)\<close> without an initial value starts from the first element and throws a
  TypeError on an empty array.\<close>

definition reduce1 :: "('a \<Rightarrow> 'a \<Rightarrow> 'a) \<Rightarrow> 'a list \<Rightarrow> error + 'a" where
  "reduce1 f xs = (case xs of [] \<Rightarrow> Inl TypeError | x # rest \<Rightarrow> Inr (foldl f x rest))"

text \<open>The body of the loop of \<open>detectSwingPointsRolling\<close> at index \<open>i\<close>. The loop runs
  \<open>i\<close> from \<open>lookback\<close> while \<open>i < prices.length - lookback\<close>, so \<open>prices[i]\<close> is in
  range.\<close>

definition rollingBar :: "HistoricalPrice list \<Rightarrow> nat \<Rightarrow> SwingPoints \<Rightarrow> nat \<Rightarrow> SwingPoints" where
  "rollingBar prices lookback s i =
     (let bar = prices ! i;
          window = slice prices (i - lookback) (i + lookback + 1);
          s1 = (if list_all (\<lambda>b. num_ge (Fin (hp_high bar)) (Fin (hp_high b))) window
                   \<and> num_gt (Fin (hp_high bar)) (sp_price (swingHigh s))
                then s\<lparr>swingHigh := \<lparr>sp_price = Fin (hp_high bar), sp_date = hp_date bar\<rparr>\<rparr>
                else s)
      in if list_all (\<lambda>b. num_le (Fin (hp_low bar)) (Fin (hp_low b))) window
            \<and> num_lt (Fin (hp_low bar)) (sp_price (swingLow s1))
         then s1\<lparr>swingLow := \<lparr>sp_price = Fin (hp_low bar), sp_date = hp_date bar\<rparr>\<rparr>
         else s1)"

definition detectSwingPointsRolling :: "HistoricalPrice list \<Rightarrow> nat \<Rightarrow> error + SwingPoints" where
  "detectSwingPointsRolling prices lookback =
     (let s = foldl (rollingBar prices lookback) initSwing
                [lookback ..< length prices - lookback]
      in case (if num_eq (sp_price (swingHigh s)) NegInfinity
               then (case reduce1 (\<lambda>a b. if num_gt (Fin (hp_high b)) (Fin (hp_high a)) then b else a)
                            prices of
                       Inl e \<Rightarrow> Inl e
                     | Inr best \<Rightarrow>
                         Inr (s\<lparr>swingHigh := \<lparr>sp_price = Fin (hp_high best), sp_date = hp_date best\<rparr>\<rparr>))
               else Inr s) of
           Inl e \<Rightarrow> Inl e
         | Inr s1 \<Rightarrow>
             if num_eq (sp_price (swingLow s1)) PosInfinity
             then (case reduce1 (\<lambda>a b. if num_lt (Fin (hp_low b)) (Fin (hp_low a)) then b else a)
                          prices of
                     Inl e \<Rightarrow> Inl e
                   | Inr best \<Rightarrow>
                       Inr (s1\<lparr>swingLow := \<lparr>sp_price = Fin (hp_low best), sp_date = hp_date best\<rparr>\<rparr>))
             else Inr s1)"

text \<open>\<open>detectSwingPoints(prices, lookback?)\<close>: the optional argument is an \<open>option\<close>. A
  lookback is a count of bars (the backtest passes \<open>SWING_LOOKBACK = 10\<close>), a natural
  number.\<close>

definition detectSwingPoints :: "HistoricalPrice list \<Rightarrow> nat option \<Rightarrow> error + SwingPoints" where
  "detectSwingPoints prices lookback =
     (if length prices = 0 then Inl EmptyInputError
      else case lookback of
             Some l \<Rightarrow> detectSwingPointsRolling prices l
           | None \<Rightarrow> Inr (foldl scanBar initSwing prices))"

definition detectTrend :: "SwingPoints \<Rightarrow> TrendDirection" where
  "detectTrend swing =
     (if str_lt (sp_date (swingLow swing)) (sp_date (swingHigh swing)) then Uptrend else Downtrend)"

section \<open>Fibonacci levels\<close>

definition FIB_RATIOS :: "FibRatio list" where
  "FIB_RATIOS =
     [\<lparr>fr_ratio = Fin 0.236, fr_label = ''23.6%'', fr_friendlyName = ''Shallow Pullback'',
       fr_trafficLight = Success\<rparr>,
      \<lparr>fr_ratio = Fin 0.382, fr_label = ''38.2%'', fr_friendlyName = ''Moderate Pullback'',
       fr_trafficLight = Success\<rparr>,
      \<lparr>fr_ratio = Fin 0.5, fr_label = ''50.0%'', fr_friendlyName = ''Halfway Point'',
       fr_trafficLight = Warning\<rparr>,
      \<lparr>fr_ratio = Fin 0.618, fr_label = ''61.8%'', fr_friendlyName = ''The Sweet Spot'',
       fr_trafficLight = Warning\<rparr>,
      \<lparr>fr_ratio = Fin 0.786, fr_label = ''78.6%'', fr_friendlyName = ''Deep Pullback'',
       fr_trafficLight = Danger\<rparr>]"

definition fibLevel :: "number \<Rightarrow> number \<Rightarrow> number \<Rightarrow> TrendDirection \<Rightarrow> FibRatio \<Rightarrow> FibLevel" where
  "fibLevel high low diff trend r =
     \<lparr>fl_ratio = fr_ratio r,
      fl_label = fr_label r,
      fl_friendlyName = fr_friendlyName r,
      fl_price = parseFloat_toFixed 2
        (if trend = Uptrend
         then num_sub high (num_mul diff (fr_ratio r))
         else num_add low (num_mul diff (fr_ratio r))),
      fl_isGoldenZone = num_eq (fr_ratio r) (Fin 0.618),
      fl_trafficLight = fr_trafficLight r\<rparr>"

definition calculateFibLevels :: "number \<Rightarrow> number \<Rightarrow> TrendDirection \<Rightarrow> FibLevel list" where
  "calculateFibLevels high low trend =
     (let diff = num_sub high low in map (fibLevel high low diff trend) FIB_RATIOS)"

section \<open>Traffic light signal\<close>

text \<open>
  \<open>levels[0]\<close> and the result of \<open>levels.find\<close> may be \<open>undefined\<close>; the source reads
  their \<open>price\<close> only where a comparison needs it, and that read throws a TypeError. The
  reason text of each branch is left out.
\<close>

definition determineSignal :: "number \<Rightarrow> FibLevel list \<Rightarrow> TrendDirection \<Rightarrow> error + ThemeStatus" where
  "determineSignal currentPrice levels trend =
     (let shallow = nth_opt levels 0;
          golden = find fl_isGoldenZone levels
      in if trend = Uptrend then
           (case shallow of
              None \<Rightarrow> Inl TypeError
            | Some sh \<Rightarrow>
                if num_ge currentPrice (fl_price sh) then Inr Success
                else (case golden of
                        None \<Rightarrow> Inl TypeError
                      | Some g \<Rightarrow>
                          if num_ge currentPrice (fl_price g) then Inr Warning else Inr Danger))
         else
           (case shallow of
              None \<Rightarrow> Inl TypeError
            | Some sh \<Rightarrow>
                if num_le currentPrice (fl_price sh) then Inr Danger
                else (case golden of
                        None \<Rightarrow> Inl TypeError
                      | Some g \<Rightarrow>
                          if num_le currentPrice (fl_price g) then Inr Warning else Inr Success)))"

section \<open>The analysis pipeline\<close>

definition analyzeTicker :: "string \<Rightarrow> HistoricalPrice list \<Rightarrow> number \<Rightarrow> error + FibLevels" where
  "analyzeTicker ticker prices currentPrice =
     (case detectSwingPoints prices None of
        Inl e \<Rightarrow> Inl e
      | Inr swing \<Rightarrow>
          (let trend = detectTrend swing;
               levels = calculateFibLevels (sp_price (swingHigh swing)) (sp_price (swingLow swing)) trend
           in case determineSignal currentPrice levels trend of
                Inl e \<Rightarrow> Inl e
              | Inr signal \<Rightarrow>
                  Inr \<lparr>fls_ticker = toUpperCase ticker,
                       fls_trend = trend,
                       fls_trendFriendly = (if trend = Uptrend then ''Growth Era'' else ''Cooling Off''),
                       fls_high = swingHigh swing,
                       fls_low = swingLow swing,
                       fls_range = parseFloat_toFixed 2
                         (num_sub (sp_price (swingHigh swing)) (sp_price (swingLow swing))),
                       fls_levels = levels,
                       fls_currentPrice = currentPrice,
                       fls_signal = signal\<rparr>))"

section \<open>The backtest of \<open>backtest-logic.ts\<close>\<close>

datatype Outcome = OutcomeSuccess | OutcomeFail

record GoldenTouch =
  gt_date :: string
  gt_touchPrice :: number
  gt_goldenLevelPrice :: number
  gt_trend :: TrendDirection
  gt_priceAfter30 :: number
  gt_percentChange :: number
  gt_outcome :: Outcome

text \<open>The result of \<open>backtestGoldenZone\<close>, without the display text \<open>summary\<close>.\<close>

record BacktestResult =
  br_ticker :: string
  br_totalBars :: nat
  br_touches :: "GoldenTouch list"
  br_successes :: nat
  br_failures :: nat
  br_winRate :: number

definition SWING_WINDOW :: nat where "SWING_WINDOW = 120"
definition SWING_LOOKBACK :: nat where "SWING_LOOKBACK = 10"
definition TOUCH_TOLERANCE :: real where "TOUCH_TOLERANCE = 0.015"
definition OUTCOME_HORIZON :: nat where "OUTCOME_HORIZON = 30"
definition COOLDOWN_BARS :: nat where "COOLDOWN_BARS = 10"

text \<open>The state of the walk: the touches logged so far and \<open>lastTouchIndex\<close>, which starts
  at \<open>-Infinity\<close>.\<close>

record WalkState =
  touches :: "GoldenTouch list"
  lastTouchIndex :: number

text \<open>
  The body of the loop at index \<open>i\<close>. A \<open>continue\<close> returns the state as it is; a read of
  a property of \<open>prices[i]\<close> or \<open>prices[i + OUTCOME_HORIZON]\<close> out of range throws.
\<close>

definition walkBar :: "HistoricalPrice list \<Rightarrow> WalkState \<Rightarrow> nat \<Rightarrow> error + WalkState" where
  "walkBar prices st i =
     (if num_lt (num_sub (Fin (real i)) (lastTouchIndex st)) (Fin (real COOLDOWN_BARS)) then Inr st
      else
       (let window = slice prices (i - SWING_WINDOW) i in
        (case detectSwingPoints window (Some SWING_LOOKBACK) of
           Inl e \<Rightarrow> Inl e
         | Inr swing \<Rightarrow>
            (let trend = detectTrend swing;
                 levels = calculateFibLevels (sp_price (swingHigh swing))
                            (sp_price (swingLow swing)) trend
             in (case find fl_isGoldenZone levels of
                   None \<Rightarrow> Inr st
                 | Some goldenLevel \<Rightarrow>
                    (let range = num_sub (sp_price (swingHigh swing)) (sp_price (swingLow swing)) in
                     if num_le range (Fin 0) then Inr st
                     else
                      (case nth_opt prices i of
                         None \<Rightarrow> Inl TypeError
                       | Some bar \<Rightarrow>
                          (let distance =
                                 num_abs (num_sub (Fin (hp_close bar)) (fl_price goldenLevel))
                           in if num_gt distance (num_mul range (Fin TOUCH_TOLERANCE)) then Inr st
                              else
                               (case nth_opt prices (i + OUTCOME_HORIZON) of
                                  None \<Rightarrow> Inl TypeError
                                | Some futureBar \<Rightarrow>
                                   (let pctChange =
                                          num_mul
                                            (num_div
                                               (num_sub (Fin (hp_close futureBar)) (Fin (hp_close bar)))
                                               (Fin (hp_close bar)))
                                            (Fin 100);
                                        outcome =
                                          (if trend = Uptrend
                                           then (if num_gt pctChange (Fin 0)
                                                 then OutcomeSuccess else OutcomeFail)
                                           else (if num_lt pctChange (Fin 0)
                                                 then OutcomeSuccess else OutcomeFail))
                                    in Inr \<lparr>touches = touches st @
                                               [\<lparr>gt_date = hp_date bar,
                                                 gt_touchPrice = Fin (hp_close bar),
                                                 gt_goldenLevelPrice = fl_price goldenLevel,
                                                 gt_trend = trend,
                                                 gt_priceAfter30 = Fin (hp_close futureBar),
                                                 gt_percentChange = parseFloat_toFixed 2 pctChange,
                                                 gt_outcome = outcome\<rparr>],
                                             lastTouchIndex = Fin (real i)\<rparr>))))))))))"

text \<open>The loop \<open>for (let i = startAt; i < stopAt; i++)\<close>: the body never assigns \<open>i\<close>, so
  the indices visited are \<open>startAt, ..., stopAt - 1\<close> in this order; an exception ends the
  walk.\<close>

fun walk :: "HistoricalPrice list \<Rightarrow> WalkState \<Rightarrow> nat list \<Rightarrow> error + WalkState" where
  "walk prices st [] = Inr st"
| "walk prices st (i # is) =
     (case walkBar prices st i of
        Inl e \<Rightarrow> Inl e
      | Inr st' \<Rightarrow> walk prices st' is)"

definition backtestGoldenZone :: "string \<Rightarrow> HistoricalPrice list \<Rightarrow> error + BacktestResult" where
  "backtestGoldenZone ticker prices =
     (let startAt = SWING_WINDOW;
          stopAt = length prices - OUTCOME_HORIZON
      in case walk prices \<lparr>touches = [], lastTouchIndex = NegInfinity\<rparr> [startAt ..< stopAt] of
           Inl e \<Rightarrow> Inl e
         | Inr st \<Rightarrow>
             (let successes = length (filter (\<lambda>t. gt_outcome t = OutcomeSuccess) (touches st));
                  failures = length (touches st) - successes;
                  winRate =
                    (if length (touches st) > 0
                     then parseFloat_toFixed 1
                            (num_mul (num_div (Fin (real successes)) (Fin (real (length (touches st)))))
                                     (Fin 100))
                     else Fin 0)
              in Inr \<lparr>br_ticker = toUpperCase ticker,
                      br_totalBars = length prices,
                      br_touches = touches st,
                      br_successes = successes,
                      br_failures = failures,
                      br_winRate = winRate\<rparr>))"

section \<open>Notions used in the statements and proofs\<close>

text \<open>
  A touch does not store the index of its bar. The invariant of the walk relates the state to
  the list \<open>idxs\<close> of the indices at which the touches were logged: each touch carries the
  date of its bar, the indices are in range and at least \<open>COOLDOWN_BARS\<close> apart, and
  \<open>lastTouchIndex\<close> is the last of them.
\<close>

definition walk_inv :: "HistoricalPrice list \<Rightarrow> WalkState \<Rightarrow> nat list \<Rightarrow> bool" where
  "walk_inv prices st idxs =
     (map gt_date (touches st) = map (\<lambda>i. hp_date (prices ! i)) idxs
      \<and> list_all (\<lambda>k. k < length prices) idxs
      \<and> sorted_wrt (\<lambda>a b. a + COOLDOWN_BARS \<le> b) idxs
      \<and> lastTouchIndex st = (if idxs = [] then NegInfinity else Fin (real (last idxs))))"

text \<open>
  The two halves of a scan step, each on its own accumulator: the bar at index \<open>i\<close> replaces
  the swing high when it passes the test \<open>C\<close> and its high is strictly greater, and replaces
  the swing low when it passes \<open>C\<close> and its low is strictly smaller.
\<close>

definition barHigh :: "HistoricalPrice \<Rightarrow> SwingPoint" where
  "barHigh bar = \<lparr>sp_price = Fin (hp_high bar), sp_date = hp_date bar\<rparr>"

definition barLow :: "HistoricalPrice \<Rightarrow> SwingPoint" where
  "barLow bar = \<lparr>sp_price = Fin (hp_low bar), sp_date = hp_date bar\<rparr>"

definition pickHigh :: "(nat \<Rightarrow> bool) \<Rightarrow> HistoricalPrice list \<Rightarrow> SwingPoint \<Rightarrow> nat \<Rightarrow> SwingPoint" where
  "pickHigh C prices p i =
     (if C i \<and> num_gt (Fin (hp_high (prices ! i))) (sp_price p) then barHigh (prices ! i) else p)"

definition pickLow :: "(nat \<Rightarrow> bool) \<Rightarrow> HistoricalPrice list \<Rightarrow> SwingPoint \<Rightarrow> nat \<Rightarrow> SwingPoint" where
  "pickLow C prices p i =
     (if C i \<and> num_lt (Fin (hp_low (prices ! i))) (sp_price p) then barLow (prices ! i) else p)"

text \<open>The window tests of \<open>detectSwingPointsRolling\<close> at index \<open>i\<close>, as the source writes
  them.\<close>

definition windowHigh :: "HistoricalPrice list \<Rightarrow> nat \<Rightarrow> nat \<Rightarrow> bool" where
  "windowHigh prices lookback i =
     list_all (\<lambda>b. num_ge (Fin (hp_high (prices ! i))) (Fin (hp_high b)))
       (slice prices (i - lookback) (i + lookback + 1))"

definition windowLow :: "HistoricalPrice list \<Rightarrow> nat \<Rightarrow> nat \<Rightarrow> bool" where
  "windowLow prices lookback i =
     list_all (\<lambda>b. num_le (Fin (hp_low (prices ! i))) (Fin (hp_low b)))
       (slice prices (i - lookback) (i + lookback + 1))"

text \<open>
  The specification's words. A bar at an interior index \<open>i\<close>, with at least \<open>L\<close> bars on
  each side, is a candidate swing high when its high is the maximum of the closed window
  \<open>[i - L, i + L]\<close>, and a candidate swing low when its low is the minimum there.
\<close>

definition isSwingHighCandidate :: "HistoricalPrice list \<Rightarrow> nat \<Rightarrow> nat \<Rightarrow> bool" where
  "isSwingHighCandidate prices L i =
     (L \<le> i \<and> i + L < length prices
      \<and> (\<forall>j\<in>{i - L .. i + L}. hp_high (prices ! j) \<le> hp_high (prices ! i)))"

definition isSwingLowCandidate :: "HistoricalPrice list \<Rightarrow> nat \<Rightarrow> nat \<Rightarrow> bool" where
  "isSwingLowCandidate prices L i =
     (L \<le> i \<and> i + L < length prices
      \<and> (\<forall>j\<in>{i - L .. i + L}. hp_low (prices ! i) \<le> hp_low (prices ! j)))"

text \<open>
  Among the indices \<open>a, ..., b - 1\<close> that pass \<open>C\<close>, index \<open>i\<close> is the first with the
  largest high: no such index has a greater high and every earlier one has a strictly smaller
  high. Mirrored for the smallest low.
\<close>

definition firstLargestHigh :: "(nat \<Rightarrow> bool) \<Rightarrow> HistoricalPrice list \<Rightarrow> nat \<Rightarrow> nat \<Rightarrow> nat \<Rightarrow> bool" where
  "firstLargestHigh C prices a b i =
     (a \<le> i \<and> i < b \<and> C i
      \<and> (\<forall>j\<in>{a ..< b}. C j \<longrightarrow> hp_high (prices ! j) \<le> hp_high (prices ! i))
      \<and> (\<forall>j\<in>{a ..< i}. C j \<longrightarrow> hp_high (prices ! j) < hp_high (prices ! i)))"

definition firstSmallestLow :: "(nat \<Rightarrow> bool) \<Rightarrow> HistoricalPrice list \<Rightarrow> nat \<Rightarrow> nat \<Rightarrow> nat \<Rightarrow> bool" where
  "firstSmallestLow C prices a b i =
     (a \<le> i \<and> i < b \<and> C i
      \<and> (\<forall>j\<in>{a ..< b}. C j \<longrightarrow> hp_low (prices ! i) \<le> hp_low (prices ! j))
      \<and> (\<forall>j\<in>{a ..< i}. C j \<longrightarrow> hp_low (prices ! i) < hp_low (prices ! j)))"

text \<open>The starting values of the two accumulators, and one step of the global scan on each
  of them.\<close>

definition initHigh :: SwingPoint where
  "initHigh = \<lparr>sp_price = NegInfinity, sp_date = ''''\<rparr>"

definition initLow :: SwingPoint where
  "initLow = \<lparr>sp_price = PosInfinity, sp_date = ''''\<rparr>"

definition scanHigh :: "SwingPoint \<Rightarrow> HistoricalPrice \<Rightarrow> SwingPoint" where
  "scanHigh p bar = (if num_gt (Fin (hp_high bar)) (sp_price p) then barHigh bar else p)"

definition scanLow :: "SwingPoint \<Rightarrow> HistoricalPrice \<Rightarrow> SwingPoint" where
  "scanLow p bar = (if num_lt (Fin (hp_low bar)) (sp_price p) then barLow bar else p)"

text \<open>\<open>parseFloat(x.toFixed(2))\<close> on a finite number, as a function on the reals.\<close>

definition round2 :: "real \<Rightarrow> real" where
  "round2 x =
     (if 10 ^ 21 \<le> \<bar>x\<bar> then x
      else if x < 0 then - (real_of_int (toFixed_n 2 (- x)) / 10 ^ 2)
      else real_of_int (toFixed_n 2 x) / 10 ^ 2)"

section \<open>Example price series\<close>

text \<open>Dates in the ordinal form of ISO 8601: day \<open>k + 1\<close> of the year 2024.\<close>

definition digit3 :: "nat \<Rightarrow> string" where
  "digit3 k = [char_of (48 + k div 100 mod 10), char_of (48 + k div 10 mod 10), char_of (48 + k mod 10)]"

definition ordinalDate :: "nat \<Rightarrow> string" where
  "ordinalDate k = ''2024-'' @ digit3 (k + 1)"

text \<open>A series of 130 bars that rises strictly from 100.00 on the first day to 200.00 on the
  last.\<close>

definition risingBar :: "nat \<Rightarrow> HistoricalPrice" where
  "risingBar k =
     \<lparr>hp_date = ordinalDate k,
      hp_open = 100 + real k * (100 / 129),
      hp_high = 100 + real k * (100 / 129),
      hp_low = 100 + real k * (100 / 129),
      hp_close = 100 + real k * (100 / 129),
      hp_volume = 1000\<rparr>"

definition risingSeries :: "HistoricalPrice list" where
  "risingSeries = map risingBar [0 ..< 130]"

text \<open>Five bars with the highest high and the lowest low attained twice, on the second and
  on the fourth day.\<close>

definition tieSeries :: "HistoricalPrice list" where
  "tieSeries =
     [\<lparr>hp_date = ''2024-001'', hp_open = 8, hp_high = 10, hp_low = 5, hp_close = 9, hp_volume = 1000\<rparr>,
      \<lparr>hp_date = ''2024-002'', hp_open = 9, hp_high = 12, hp_low = 4, hp_close = 11, hp_volume = 1000\<rparr>,
      \<lparr>hp_date = ''2024-003'', hp_open = 10, hp_high = 11, hp_low = 6, hp_close = 8, hp_volume = 1000\<rparr>,
      \<lparr>hp_date = ''2024-004'', hp_open = 8, hp_high = 12, hp_low = 4, hp_close = 8, hp_volume = 1000\<rparr>,
      \<lparr>hp_date = ''2024-005'', hp_open = 8, hp_high = 9, hp_low = 7, hp_close = 8, hp_volume = 1000\<rparr>]"

text \<open>
  A series of 171 bars that differ in their dates only: every day ranges from 0 to 100 and
  closes at 61.80. Every window of 120 bars has its swing high and its swing low on its
  eleventh bar, the first interior one, so the trend is a downtrend and the Golden Zone level
  is 61.80, the close of every bar.
\<close>

definition flatBar :: "nat \<Rightarrow> HistoricalPrice" where
  "flatBar k =
     \<lparr>hp_date = ordinalDate k, hp_open = 61.8, hp_high = 100, hp_low = 0, hp_close = 61.8,
      hp_volume = 1000\<rparr>"

definition flatSeries :: "HistoricalPrice list" where
  "flatSeries = map flatBar [0 ..< 171]"

definition flatTouch :: "nat \<Rightarrow> GoldenTouch" where
  "flatTouch i =
     \<lparr>gt_date = ordinalDate i,
      gt_touchPrice = Fin 61.8,
      gt_goldenLevelPrice = Fin 61.8,
      gt_trend = Downtrend,
      gt_priceAfter30 = Fin 61.8,
      gt_percentChange = Fin 0,
      gt_outcome = OutcomeFail\<rparr>"

section \<open>Facts about numbers and rounding\<close>

lemma num_cmp_Fin [simp]:
  "num_gt (Fin x) (Fin y) = (y < x)"
  "num_le (Fin x) (Fin y) = (x \<le> y)"
  "num_ge (Fin x) (Fin y) = (y \<le> x)"
  "num_eq (Fin x) (Fin y) = (x = y)"
  by (auto simp: num_gt_def num_le_def num_ge_def num_eq_def)

lemma num_gt_NegInfinity [simp]: "num_gt (Fin x) NegInfinity" "num_lt (Fin x) PosInfinity"
  by (simp_all add: num_gt_def)

lemma num_sub_Fin [simp]: "num_sub (Fin x) (Fin y) = Fin (x - y)"
  by (simp add: num_sub_def)

lemma parseFloat_toFixed_round2: "parseFloat_toFixed 2 (Fin x) = Fin (round2 x)"
  by (simp add: round2_def)











lemma round2_138: "round2 (200 - (200 - 100) * 0.618) = 138.2"
  by (simp add: round2_def toFixed_n_def Let_def)

lemma round2_176: "round2 (200 - (200 - 100) * 0.236) = 176.4"
  by (simp add: round2_def toFixed_n_def Let_def)

section \<open>Order of strings and of the example dates\<close>

lemma str_lt_irrefl [simp]: "\<not> str_lt s s"
  by (induction s) simp_all

lemma str_lt_prefix [simp]: "str_lt (p @ a) (p @ b) = str_lt a b"
  by (induction p) simp_all

lemma of_char_digit: "d < 10 \<Longrightarrow> (of_char (char_of (48 + d :: nat)) :: nat) = 48 + d"
  by (simp only: of_char_of) simp

lemma decimal_digits: "(m::nat) = 100 * (m div 100) + 10 * (m div 10 mod 10) + m mod 10"
proof -
  have 1: "m = 10 * (m div 10) + m mod 10" by simp
  have 2: "m div 10 = 10 * (m div 10 div 10) + m div 10 mod 10" by simp
  have 3: "m div 10 div 10 = m div 100" by (simp add: div_mult2_eq [symmetric])
  from 1 2 3 show ?thesis by linarith
qed

lemma lex3:
  fixes a b c a' b' c' :: nat
  assumes "100 * a + 10 * b + c < 100 * a' + 10 * b' + c'" "b < 10" "c < 10" "b' < 10" "c' < 10"
  shows "a < a' \<or> (a = a' \<and> (b < b' \<or> (b = b' \<and> c < c')))"
  using assms by arith

lemma str_lt_digits:
  fixes a b c a' b' c' :: nat
  assumes "a < 10" "b < 10" "c < 10" "a' < 10" "b' < 10" "c' < 10"
   "a < a' \<or> (a = a' \<and> (b < b' \<or> (b = b' \<and> c < c')))"
  shows "str_lt [char_of (48 + a), char_of (48 + b), char_of (48 + c)]
                [char_of (48 + a'), char_of (48 + b'), char_of (48 + c')]"
  using assms by (auto simp add: of_char_digit simp del: of_char_of)

lemma digit3_lt:
  assumes "m < n" "n < 1000"
  shows "str_lt (digit3 m) (digit3 n)"
proof -
  have "100 * (m div 100) + 10 * (m div 10 mod 10) + m mod 10
        < 100 * (n div 100) + 10 * (n div 10 mod 10) + n mod 10"
    using assms(1) decimal_digits [of m] decimal_digits [of n] by simp
  then have l: "m div 100 < n div 100 \<or> (m div 100 = n div 100 \<and>
       (m div 10 mod 10 < n div 10 mod 10 \<or> (m div 10 mod 10 = n div 10 mod 10 \<and> m mod 10 < n mod 10)))"
    by (rule lex3) simp_all
  have h: "m div 100 < 10" "n div 100 < 10" using assms by simp_all
  then have e: "m div 100 mod 10 = m div 100" "n div 100 mod 10 = n div 100" by simp_all
  show ?thesis
    unfolding digit3_def e by (rule str_lt_digits) (use h l in simp_all)
qed

lemma ordinalDate_lt: "i < j \<Longrightarrow> j < 999 \<Longrightarrow> str_lt (ordinalDate i) (ordinalDate j)"
  unfolding ordinalDate_def by (simp only: str_lt_prefix) (rule digit3_lt, simp_all)

lemma ordinalDate_neq: "i < 999 \<Longrightarrow> j < 999 \<Longrightarrow> i \<noteq> j \<Longrightarrow> ordinalDate i \<noteq> ordinalDate j"
  by (metis linorder_neqE_nat ordinalDate_lt str_lt_irrefl)

section \<open>The five levels\<close>

lemma calculateFibLevels_unfold:
  "calculateFibLevels high low trend =
     [fibLevel high low (num_sub high low) trend (FIB_RATIOS ! 0),
      fibLevel high low (num_sub high low) trend (FIB_RATIOS ! 1),
      fibLevel high low (num_sub high low) trend (FIB_RATIOS ! 2),
      fibLevel high low (num_sub high low) trend (FIB_RATIOS ! 3),
      fibLevel high low (num_sub high low) trend (FIB_RATIOS ! 4)]"
  by (simp add: calculateFibLevels_def FIB_RATIOS_def Let_def)

lemma golden_flags:
  "map fl_isGoldenZone (calculateFibLevels high low trend) = [False, False, False, True, False]"
  by (simp add: calculateFibLevels_unfold fibLevel_def FIB_RATIOS_def)

lemma find_golden:
  "find fl_isGoldenZone (calculateFibLevels high low trend) = Some (calculateFibLevels high low trend ! 3)"
  by (simp add: calculateFibLevels_unfold fibLevel_def FIB_RATIOS_def)

lemma nth_opt_levels:
  "nth_opt (calculateFibLevels high low trend) 0 = Some (calculateFibLevels high low trend ! 0)"
  by (simp add: calculateFibLevels_unfold nth_opt_def)

lemma determineSignal_ok:
  "\<exists>s. determineSignal cp (calculateFibLevels high low trend) trend' = Inr s"
  by (simp add: determineSignal_def find_golden nth_opt_levels Let_def)


text \<open>
  Claim C10. For every \<open>high\<close>, \<open>low\<close> and trend, \<open>calculateFibLevels\<close> returns exactly
  five levels, their ratios ascending (0.236, 0.382, 0.5, 0.618, 0.786), and exactly one of
  them, the one of ratio 0.618 at position 3, has \<open>isGoldenZone\<close>. So \<open>levels.find\<close> for
  the golden level always succeeds: the branch of \<open>backtestGoldenZone\<close> that skips a bar for
  want of a golden level is never taken, and \<open>determineSignal\<close> on these levels returns a
  signal and never throws.
\<close>

theorem calculateFibLevels_five_levels_one_golden:
  "length (calculateFibLevels high low trend) = 5
   \<and> map fl_ratio (calculateFibLevels high low trend)
       = [Fin 0.236, Fin 0.382, Fin 0.5, Fin 0.618, Fin 0.786]
   \<and> sorted_wrt num_lt (map fl_ratio (calculateFibLevels high low trend))
   \<and> map fl_isGoldenZone (calculateFibLevels high low trend) = [False, False, False, True, False]
   \<and> length (filter fl_isGoldenZone (calculateFibLevels high low trend)) = 1
   \<and> find fl_isGoldenZone (calculateFibLevels high low trend)
       = Some (calculateFibLevels high low trend ! 3)
   \<and> (\<exists>s. determineSignal currentPrice (calculateFibLevels high low trend) trend' = Inr s)"
proof -
  have r: "map fl_ratio (calculateFibLevels high low trend)
       = [Fin 0.236, Fin 0.382, Fin 0.5, Fin 0.618, Fin 0.786]"
    by (simp add: calculateFibLevels_unfold fibLevel_def FIB_RATIOS_def)
  have s: "sorted_wrt num_lt (map fl_ratio (calculateFibLevels high low trend))"
    unfolding r by simp
  have f: "length (filter fl_isGoldenZone (calculateFibLevels high low trend)) = 1"
    by (simp add: calculateFibLevels_unfold fibLevel_def FIB_RATIOS_def)
  have l: "length (calculateFibLevels high low trend) = 5"
    by (simp add: calculateFibLevels_unfold)
  show ?thesis using r s f l golden_flags find_golden determineSignal_ok by blast
qed












section \<open>The signal\<close>

lemma levels_nth:
  "calculateFibLevels high low trend ! 0 = fibLevel high low (num_sub high low) trend (FIB_RATIOS ! 0)"
  "calculateFibLevels high low trend ! 3 = fibLevel high low (num_sub high low) trend (FIB_RATIOS ! 3)"
  by (simp_all add: calculateFibLevels_unfold)

lemma shallow_golden_prices:
  "fl_price (calculateFibLevels (Fin h) (Fin l) trend ! 0)
     = Fin (round2 (if trend = Uptrend then h - (h - l) * 0.236 else l + (h - l) * 0.236))"
  "fl_price (calculateFibLevels (Fin h) (Fin l) trend ! 3)
     = Fin (round2 (if trend = Uptrend then h - (h - l) * 0.618 else l + (h - l) * 0.618))"
  "fl_ratio (calculateFibLevels (Fin h) (Fin l) trend ! 0) = Fin 0.236"
  "fl_ratio (calculateFibLevels (Fin h) (Fin l) trend ! 3) = Fin 0.618"
  "fl_isGoldenZone (calculateFibLevels (Fin h) (Fin l) trend ! 3)"
  by (simp_all add: levels_nth fibLevel_def FIB_RATIOS_def parseFloat_toFixed_round2
      del: parseFloat_toFixed.simps)

lemma determineSignal_levels:
  "determineSignal cp (calculateFibLevels high low t0) trend =
     Inr (let shallow = calculateFibLevels high low t0 ! 0;
              golden = calculateFibLevels high low t0 ! 3
          in if trend = Uptrend
             then (if num_ge cp (fl_price shallow) then Success
                   else if num_ge cp (fl_price golden) then Warning else Danger)
             else (if num_le cp (fl_price shallow) then Danger
                   else if num_le cp (fl_price golden) then Warning else Success))"
  by (simp add: determineSignal_def find_golden nth_opt_levels Let_def)



section \<open>The scans of the swing detector\<close>

lemma pickHigh_none:
  "\<forall>i\<in>set is. \<not> C i \<Longrightarrow> foldl (pickHigh C prices) p is = p"
  by (induction "is" arbitrary: p) (simp_all add: pickHigh_def)

lemma pickHigh_init: "C i \<Longrightarrow> pickHigh C prices initHigh i = barHigh (prices ! i)"
  by (simp add: pickHigh_def initHigh_def)

lemma pickHigh_barHigh:
  "pickHigh C prices (barHigh (prices ! k)) i =
     (if C i \<and> hp_high (prices ! k) < hp_high (prices ! i) then barHigh (prices ! i)
      else barHigh (prices ! k))"
  by (simp add: pickHigh_def barHigh_def)

lemma firstLargestHigh_extend:
  assumes "firstLargestHigh C prices a b k" 
  shows "firstLargestHigh C prices a (Suc b)
           (if C b \<and> hp_high (prices ! k) < hp_high (prices ! b) then b else k)"
  using assms unfolding firstLargestHigh_def
  by (auto simp: less_Suc_eq) 

lemma firstLargestHigh_start:
  assumes "a \<le> b" "C b" "\<forall>j\<in>{a ..< b}. \<not> C j"
  shows "firstLargestHigh C prices a (Suc b) b"
  using assms unfolding firstLargestHigh_def by (auto simp: less_Suc_eq)

lemma pickHigh_fold:
  "(if \<exists>j\<in>{a ..< b}. C j
    then \<exists>k. firstLargestHigh C prices a b k
             \<and> foldl (pickHigh C prices) initHigh [a ..< b] = barHigh (prices ! k)
    else foldl (pickHigh C prices) initHigh [a ..< b] = initHigh)"
proof (induction b)
  case 0
  then show ?case by simp
next
  case (Suc b)
  show ?case
  proof (cases "a \<le> b")
    case False
    then show ?thesis by simp
  next
    case True
    show ?thesis
    proof (cases "\<exists>j\<in>{a ..< b}. C j")
      case False
      with Suc have f: "foldl (pickHigh C prices) initHigh [a ..< b] = initHigh" by simp
      show ?thesis
      proof (cases "C b")
        case True
        have "firstLargestHigh C prices a (Suc b) b"
          using firstLargestHigh_start \<open>a \<le> b\<close> True False by blast
        moreover have "foldl (pickHigh C prices) initHigh [a ..< Suc b] = barHigh (prices ! b)"
          using True \<open>a \<le> b\<close> by (simp add: f pickHigh_init)
        moreover have "\<exists>j\<in>{a ..< Suc b}. C j" using True \<open>a \<le> b\<close> by auto
        ultimately show ?thesis by (simp only: if_True) blast
      next
        case nb: False
        have n: "\<not> (\<exists>j\<in>{a ..< Suc b}. C j)" using False nb by (auto simp: less_Suc_eq)
        have "foldl (pickHigh C prices) initHigh [a ..< Suc b] = initHigh"
          using nb \<open>a \<le> b\<close> by (simp add: f pickHigh_def)
        with n show ?thesis by (simp only: if_False)
      qed
    next
      case True
      with Suc obtain k where k: "firstLargestHigh C prices a b k"
        and f: "foldl (pickHigh C prices) initHigh [a ..< b] = barHigh (prices ! k)" by auto
      let ?k = "if C b \<and> hp_high (prices ! k) < hp_high (prices ! b) then b else k"
      have "firstLargestHigh C prices a (Suc b) ?k"
        using firstLargestHigh_extend [OF k] .
      moreover have "foldl (pickHigh C prices) initHigh [a ..< Suc b] = barHigh (prices ! ?k)"
        using \<open>a \<le> b\<close> by (simp add: f pickHigh_barHigh)
      moreover have "\<exists>j\<in>{a ..< Suc b}. C j" using True by (auto simp: less_Suc_eq)
      ultimately show ?thesis by (simp only: if_True) blast
    qed
  qed
qed

lemma firstLargestHigh_unique:
  "firstLargestHigh C prices a b i \<Longrightarrow> firstLargestHigh C prices a b j \<Longrightarrow> i = j"
  unfolding firstLargestHigh_def
  by (metis atLeastLessThan_iff linorder_neqE_nat not_less)

lemma pickLow_none:
  "\<forall>i\<in>set is. \<not> C i \<Longrightarrow> foldl (pickLow C prices) p is = p"
  by (induction "is" arbitrary: p) (simp_all add: pickLow_def)

lemma pickLow_init: "C i \<Longrightarrow> pickLow C prices initLow i = barLow (prices ! i)"
  by (simp add: pickLow_def initLow_def)

lemma pickLow_barLow:
  "pickLow C prices (barLow (prices ! k)) i =
     (if C i \<and> hp_low (prices ! i) < hp_low (prices ! k) then barLow (prices ! i)
      else barLow (prices ! k))"
  by (simp add: pickLow_def barLow_def)

lemma firstSmallestLow_extend:
  assumes "firstSmallestLow C prices a b k" 
  shows "firstSmallestLow C prices a (Suc b)
           (if C b \<and> hp_low (prices ! b) < hp_low (prices ! k) then b else k)"
  using assms unfolding firstSmallestLow_def
  by (auto simp: less_Suc_eq) 

lemma firstSmallestLow_start:
  assumes "a \<le> b" "C b" "\<forall>j\<in>{a ..< b}. \<not> C j"
  shows "firstSmallestLow C prices a (Suc b) b"
  using assms unfolding firstSmallestLow_def by (auto simp: less_Suc_eq)

lemma pickLow_fold:
  "(if \<exists>j\<in>{a ..< b}. C j
    then \<exists>k. firstSmallestLow C prices a b k
             \<and> foldl (pickLow C prices) initLow [a ..< b] = barLow (prices ! k)
    else foldl (pickLow C prices) initLow [a ..< b] = initLow)"
proof (induction b)
  case 0
  then show ?case by simp
next
  case (Suc b)
  show ?case
  proof (cases "a \<le> b")
    case False
    then show ?thesis by simp
  next
    case True
    show ?thesis
    proof (cases "\<exists>j\<in>{a ..< b}. C j")
      case False
      with Suc have f: "foldl (pickLow C prices) initLow [a ..< b] = initLow" by simp
      show ?thesis
      proof (cases "C b")
        case True
        have "firstSmallestLow C prices a (Suc b) b"
          using firstSmallestLow_start \<open>a \<le> b\<close> True False by blast
        moreover have "foldl (pickLow C prices) initLow [a ..< Suc b] = barLow (prices ! b)"
          using True \<open>a \<le> b\<close> by (simp add: f pickLow_init)
        moreover have "\<exists>j\<in>{a ..< Suc b}. C j" using True \<open>a \<le> b\<close> by auto
        ultimately show ?thesis by (simp only: if_True) blast
      next
        case nb: False
        have n: "\<not> (\<exists>j\<in>{a ..< Suc b}. C j)" using False nb by (auto simp: less_Suc_eq)
        have "foldl (pickLow C prices) initLow [a ..< Suc b] = initLow"
          using nb \<open>a \<le> b\<close> by (simp add: f pickLow_def)
        with n show ?thesis by (simp only: if_False)
      qed
    next
      case True
      with Suc obtain k where k: "firstSmallestLow C prices a b k"
        and f: "foldl (pickLow C prices) initLow [a ..< b] = barLow (prices ! k)" by auto
      let ?k = "if C b \<and> hp_low (prices ! b) < hp_low (prices ! k) then b else k"
      have "firstSmallestLow C prices a (Suc b) ?k"
        using firstSmallestLow_extend [OF k] .
      moreover have "foldl (pickLow C prices) initLow [a ..< Suc b] = barLow (prices ! ?k)"
        using \<open>a \<le> b\<close> by (simp add: f pickLow_barLow)
      moreover have "\<exists>j\<in>{a ..< Suc b}. C j" using True by (auto simp: less_Suc_eq)
      ultimately show ?thesis by (simp only: if_True) blast
    qed
  qed
qed

lemma firstSmallestLow_unique:
  "firstSmallestLow C prices a b i \<Longrightarrow> firstSmallestLow C prices a b j \<Longrightarrow> i = j"
  unfolding firstSmallestLow_def
  by (metis atLeastLessThan_iff linorder_neqE_nat not_less)

lemma initSwing_parts [simp]: "swingHigh initSwing = initHigh" "swingLow initSwing = initLow"
  by (simp_all add: initSwing_def initHigh_def initLow_def)


lemma scanBar_parts:
  "swingHigh (scanBar s bar) = scanHigh (swingHigh s) bar"
  "swingLow (scanBar s bar) = scanLow (swingLow s) bar"
  by (simp_all add: scanBar_def scanHigh_def scanLow_def barHigh_def barLow_def Let_def)

lemma foldl_scanBar_parts:
  "swingHigh (foldl scanBar s xs) = foldl scanHigh (swingHigh s) xs
   \<and> swingLow (foldl scanBar s xs) = foldl scanLow (swingLow s) xs"
  by (induction xs arbitrary: s) (simp_all add: scanBar_parts)

lemma foldl_by_index: "foldl g s xs = foldl (\<lambda>s i. g s (xs ! i)) s [0 ..< length xs]"
proof -
  have "foldl g s (map ((!) xs) [0 ..< length xs]) = foldl (\<lambda>s i. g s (xs ! i)) s [0 ..< length xs]"
    by (simp only: foldl_map)
  then show ?thesis by (simp only: map_nth)
qed

lemma scanHigh_pick: "scanHigh p (xs ! i) = pickHigh (\<lambda>_. True) xs p i"
  by (simp add: scanHigh_def pickHigh_def)

lemma scanLow_pick: "scanLow p (xs ! i) = pickLow (\<lambda>_. True) xs p i"
  by (simp add: scanLow_def pickLow_def)

lemma foldl_scanHigh_first:
  assumes "xs \<noteq> []"
  shows "\<exists>k. firstLargestHigh (\<lambda>_. True) xs 0 (length xs) k
             \<and> foldl scanHigh initHigh xs = barHigh (xs ! k)"
proof -
  have "\<exists>j\<in>{0 ..< length xs}. True" using assms by auto
  then have "\<exists>k. firstLargestHigh (\<lambda>_. True) xs 0 (length xs) k
             \<and> foldl (pickHigh (\<lambda>_. True) xs) initHigh [0 ..< length xs] = barHigh (xs ! k)"
    using pickHigh_fold [of 0 "length xs" "\<lambda>_. True" xs] by simp
  then show ?thesis
    by (simp add: foldl_by_index [of scanHigh] scanHigh_pick)
qed

lemma foldl_scanLow_first:
  assumes "xs \<noteq> []"
  shows "\<exists>k. firstSmallestLow (\<lambda>_. True) xs 0 (length xs) k
             \<and> foldl scanLow initLow xs = barLow (xs ! k)"
proof -
  have "\<exists>j\<in>{0 ..< length xs}. True" using assms by auto
  then have "\<exists>k. firstSmallestLow (\<lambda>_. True) xs 0 (length xs) k
             \<and> foldl (pickLow (\<lambda>_. True) xs) initLow [0 ..< length xs] = barLow (xs ! k)"
    using pickLow_fold [of 0 "length xs" "\<lambda>_. True" xs] by simp
  then show ?thesis
    by (simp add: foldl_by_index [of scanLow] scanLow_pick)
qed

lemma firstLargestHigh_Max:
  assumes "firstLargestHigh (\<lambda>_. True) xs 0 (length xs) k"
  shows "hp_high (xs ! k) = Max (hp_high ` set xs)"
proof -
  from assms have k: "k < length xs" and m: "\<forall>j<length xs. hp_high (xs ! j) \<le> hp_high (xs ! k)"
    by (auto simp: firstLargestHigh_def)
  have "Max (hp_high ` set xs) = hp_high (xs ! k)"
  proof (rule Max_eqI)
    show "finite (hp_high ` set xs)" by simp
    show "hp_high (xs ! k) \<in> hp_high ` set xs" using k by simp
    fix y assume "y \<in> hp_high ` set xs"
    then obtain j where "j < length xs" "y = hp_high (xs ! j)" by (auto simp: in_set_conv_nth)
    with m show "y \<le> hp_high (xs ! k)" by simp
  qed
  then show ?thesis by simp
qed

lemma firstSmallestLow_Min:
  assumes "firstSmallestLow (\<lambda>_. True) xs 0 (length xs) k"
  shows "hp_low (xs ! k) = Min (hp_low ` set xs)"
proof -
  from assms have k: "k < length xs" and m: "\<forall>j<length xs. hp_low (xs ! k) \<le> hp_low (xs ! j)"
    by (auto simp: firstSmallestLow_def)
  have "Min (hp_low ` set xs) = hp_low (xs ! k)"
  proof (rule Min_eqI)
    show "finite (hp_low ` set xs)" by simp
    show "hp_low (xs ! k) \<in> hp_low ` set xs" using k by simp
    fix y assume "y \<in> hp_low ` set xs"
    then obtain j where "j < length xs" "y = hp_low (xs ! j)" by (auto simp: in_set_conv_nth)
    with m show "hp_low (xs ! k) \<le> y" by simp
  qed
  then show ?thesis by simp
qed

lemma detect_global:
  "prices \<noteq> [] \<Longrightarrow>
   detectSwingPoints prices None =
     Inr \<lparr>swingHigh = foldl scanHigh initHigh prices, swingLow = foldl scanLow initLow prices\<rparr>"
  using foldl_scanBar_parts [of initSwing prices]
  by (simp add: detectSwingPoints_def)

text \<open>
  Claim C4. For every non-empty price series, \<open>detectSwingPoints\<close> without a lookback
  returns a swing high whose price is the maximum of the highs and a swing low whose price is
  the minimum of the lows, and each of them is taken, price and date, from the first bar in
  scan order that attains the extremum.
\<close>

theorem detectSwingPoints_global_extrema:
  assumes "prices \<noteq> []"
  shows "\<exists>sp i k. detectSwingPoints prices None = Inr sp
           \<and> sp_price (swingHigh sp) = Fin (Max (hp_high ` set prices))
           \<and> sp_price (swingLow sp) = Fin (Min (hp_low ` set prices))
           \<and> firstLargestHigh (\<lambda>_. True) prices 0 (length prices) i
           \<and> swingHigh sp = barHigh (prices ! i)
           \<and> firstSmallestLow (\<lambda>_. True) prices 0 (length prices) k
           \<and> swingLow sp = barLow (prices ! k)"
proof -
  obtain i where i: "firstLargestHigh (\<lambda>_. True) prices 0 (length prices) i"
    and hi: "foldl scanHigh initHigh prices = barHigh (prices ! i)"
    using foldl_scanHigh_first [OF assms] by blast
  obtain k where k: "firstSmallestLow (\<lambda>_. True) prices 0 (length prices) k"
    and lo: "foldl scanLow initLow prices = barLow (prices ! k)"
    using foldl_scanLow_first [OF assms] by blast
  let ?sp = "\<lparr>swingHigh = barHigh (prices ! i), swingLow = barLow (prices ! k)\<rparr>"
  have "detectSwingPoints prices None = Inr ?sp"
    using detect_global [OF assms] hi lo by simp
  moreover have "sp_price (swingHigh ?sp) = Fin (Max (hp_high ` set prices))"
    using firstLargestHigh_Max [OF i] by (simp add: barHigh_def)
  moreover have "sp_price (swingLow ?sp) = Fin (Min (hp_low ` set prices))"
    using firstSmallestLow_Min [OF k] by (simp add: barLow_def)
  ultimately show ?thesis using i k by (intro exI [of _ ?sp] exI [of _ i] exI [of _ k]) simp
qed


lemma rollingBar_parts:
  "swingHigh (rollingBar prices l s i) = pickHigh (windowHigh prices l) prices (swingHigh s) i"
  "swingLow (rollingBar prices l s i) = pickLow (windowLow prices l) prices (swingLow s) i"
  by (simp_all add: rollingBar_def pickHigh_def pickLow_def windowHigh_def windowLow_def
      barHigh_def barLow_def Let_def)

lemma foldl_rollingBar_parts:
  "swingHigh (foldl (rollingBar prices l) s is) = foldl (pickHigh (windowHigh prices l) prices) (swingHigh s) is
   \<and> swingLow (foldl (rollingBar prices l) s is) = foldl (pickLow (windowLow prices l) prices) (swingLow s) is"
  by (induction "is" arbitrary: s) (simp_all add: rollingBar_parts)

lemma slice_upt:
  assumes "b \<le> length xs"
  shows "slice xs a b = map ((!) xs) [a ..< b]"
proof (rule sym, rule map_upt_eqI)
  show "length (slice xs a b) = b - a" using assms by (auto simp: slice_def)
  fix i assume "i < length (slice xs a b)"
  then show "slice xs a b ! i = xs ! (a + i)" using assms by (auto simp: slice_def)
qed

lemma list_all_slice:
  assumes "b \<le> length xs"
  shows "list_all P (slice xs a b) = (\<forall>j\<in>{a ..< b}. P (xs ! j))"
  by (simp add: slice_upt [OF assms] list_all_iff)

lemma windowHigh_iff:
  assumes "l \<le> i" "i + l < length prices"
  shows "windowHigh prices l i = isSwingHighCandidate prices l i"
proof -
  have b: "i + l + 1 \<le> length prices" using assms by simp
  have s: "{i - l ..< i + l + 1} = {i - l .. i + l}" by auto
  show ?thesis
    unfolding windowHigh_def isSwingHighCandidate_def list_all_slice [OF b] s
    using assms by simp
qed

lemma windowLow_iff:
  assumes "l \<le> i" "i + l < length prices"
  shows "windowLow prices l i = isSwingLowCandidate prices l i"
proof -
  have b: "i + l + 1 \<le> length prices" using assms by simp
  have s: "{i - l ..< i + l + 1} = {i - l .. i + l}" by auto
  show ?thesis
    unfolding windowLow_def isSwingLowCandidate_def list_all_slice [OF b] s
    using assms by simp
qed

lemma pickHigh_cong:
  "\<forall>i\<in>set is. C i = C' i \<Longrightarrow> foldl (pickHigh C prices) p is = foldl (pickHigh C' prices) p is"
  by (induction "is" arbitrary: p) (simp_all add: pickHigh_def)

lemma pickLow_cong:
  "\<forall>i\<in>set is. C i = C' i \<Longrightarrow> foldl (pickLow C prices) p is = foldl (pickLow C' prices) p is"
  by (induction "is" arbitrary: p) (simp_all add: pickLow_def)

lemma rolling_fold_high:
  "foldl (pickHigh (windowHigh prices l) prices) initHigh [l ..< length prices - l]
   = foldl (pickHigh (isSwingHighCandidate prices l) prices) initHigh [l ..< length prices - l]"
  by (rule pickHigh_cong) (auto simp: windowHigh_iff)

lemma rolling_fold_low:
  "foldl (pickLow (windowLow prices l) prices) initLow [l ..< length prices - l]
   = foldl (pickLow (isSwingLowCandidate prices l) prices) initLow [l ..< length prices - l]"
  by (rule pickLow_cong) (auto simp: windowLow_iff)

text \<open>Candidates lie in the interior, so the first largest among them is the same over the
  loop's range and over the whole series.\<close>

lemma candidateHigh_range:
  "isSwingHighCandidate prices l j \<Longrightarrow> j \<in> {l ..< length prices - l} \<and> j \<in> {0 ..< length prices}"
  by (auto simp: isSwingHighCandidate_def)

lemma candidateLow_range:
  "isSwingLowCandidate prices l j \<Longrightarrow> j \<in> {l ..< length prices - l} \<and> j \<in> {0 ..< length prices}"
  by (auto simp: isSwingLowCandidate_def)

lemma firstLargestHigh_whole:
  "firstLargestHigh (isSwingHighCandidate prices l) prices l (length prices - l) k
   = firstLargestHigh (isSwingHighCandidate prices l) prices 0 (length prices) k"
proof -
  have r: "\<And>j. isSwingHighCandidate prices l j \<Longrightarrow> l \<le> j \<and> j < length prices - l \<and> j < length prices"
    using candidateHigh_range by fastforce
  show ?thesis
    unfolding firstLargestHigh_def using r by (auto simp: Ball_def)
qed

lemma firstSmallestLow_whole:
  "firstSmallestLow (isSwingLowCandidate prices l) prices l (length prices - l) k
   = firstSmallestLow (isSwingLowCandidate prices l) prices 0 (length prices) k"
proof -
  have r: "\<And>j. isSwingLowCandidate prices l j \<Longrightarrow> l \<le> j \<and> j < length prices - l \<and> j < length prices"
    using candidateLow_range by fastforce
  show ?thesis
    unfolding firstSmallestLow_def using r by (auto simp: Ball_def)
qed

lemma candidate_exists_range_high:
  "(\<exists>j\<in>{l ..< length prices - l}. isSwingHighCandidate prices l j)
   = (\<exists>j\<in>{0 ..< length prices}. isSwingHighCandidate prices l j)"
  using candidateHigh_range by blast

lemma candidate_exists_range_low:
  "(\<exists>j\<in>{l ..< length prices - l}. isSwingLowCandidate prices l j)
   = (\<exists>j\<in>{0 ..< length prices}. isSwingLowCandidate prices l j)"
  using candidateLow_range by blast

lemma rolling_high:
  "(if \<exists>j\<in>{0 ..< length prices}. isSwingHighCandidate prices l j
    then \<exists>k. firstLargestHigh (isSwingHighCandidate prices l) prices 0 (length prices) k
             \<and> swingHigh (foldl (rollingBar prices l) initSwing [l ..< length prices - l])
                 = barHigh (prices ! k)
    else swingHigh (foldl (rollingBar prices l) initSwing [l ..< length prices - l]) = initHigh)"
  using pickHigh_fold [of l "length prices - l" "isSwingHighCandidate prices l" prices]
  by (simp only: foldl_rollingBar_parts initSwing_parts rolling_fold_high
      firstLargestHigh_whole candidate_exists_range_high)

lemma rolling_low:
  "(if \<exists>j\<in>{0 ..< length prices}. isSwingLowCandidate prices l j
    then \<exists>k. firstSmallestLow (isSwingLowCandidate prices l) prices 0 (length prices) k
             \<and> swingLow (foldl (rollingBar prices l) initSwing [l ..< length prices - l])
                 = barLow (prices ! k)
    else swingLow (foldl (rollingBar prices l) initSwing [l ..< length prices - l]) = initLow)"
  using pickLow_fold [of l "length prices - l" "isSwingLowCandidate prices l" prices]
  by (simp only: foldl_rollingBar_parts initSwing_parts rolling_fold_low
      firstSmallestLow_whole candidate_exists_range_low)

lemma reduce_high_scan:
  "barHigh (foldl (\<lambda>a b. if num_gt (Fin (hp_high b)) (Fin (hp_high a)) then b else a) a rest)
   = foldl scanHigh (barHigh a) rest"
  by (induction rest arbitrary: a) (simp_all add: scanHigh_def barHigh_def)

lemma reduce_low_scan:
  "barLow (foldl (\<lambda>a b. if num_lt (Fin (hp_low b)) (Fin (hp_low a)) then b else a) a rest)
   = foldl scanLow (barLow a) rest"
  by (induction rest arbitrary: a) (simp_all add: scanLow_def barLow_def)

lemma reduce1_high:
  assumes "prices \<noteq> []"
  shows "\<exists>best. reduce1 (\<lambda>a b. if num_gt (Fin (hp_high b)) (Fin (hp_high a)) then b else a) prices
            = Inr best \<and> barHigh best = foldl scanHigh initHigh prices"
proof (cases prices)
  case Nil
  with assms show ?thesis by simp
next
  case (Cons x rest)
  have "scanHigh initHigh x = barHigh x" by (simp add: scanHigh_def initHigh_def)
  then show ?thesis
    unfolding Cons reduce1_def using reduce_high_scan [of x rest] by simp
qed

lemma reduce1_low:
  assumes "prices \<noteq> []"
  shows "\<exists>best. reduce1 (\<lambda>a b. if num_lt (Fin (hp_low b)) (Fin (hp_low a)) then b else a) prices
            = Inr best \<and> barLow best = foldl scanLow initLow prices"
proof (cases prices)
  case Nil
  with assms show ?thesis by simp
next
  case (Cons x rest)
  have "scanLow initLow x = barLow x" by (simp add: scanLow_def initLow_def)
  then show ?thesis
    unfolding Cons reduce1_def using reduce_low_scan [of x rest] by simp
qed

lemma rolling_result:
  assumes "prices \<noteq> []"
  shows "detectSwingPointsRolling prices l =
     Inr \<lparr>swingHigh =
            (let h = swingHigh (foldl (rollingBar prices l) initSwing [l ..< length prices - l])
             in if num_eq (sp_price h) NegInfinity then foldl scanHigh initHigh prices else h),
          swingLow =
            (let w = swingLow (foldl (rollingBar prices l) initSwing [l ..< length prices - l])
             in if num_eq (sp_price w) PosInfinity then foldl scanLow initLow prices else w)\<rparr>"
proof -
  obtain bh where bh: "reduce1 (\<lambda>a b. if num_gt (Fin (hp_high b)) (Fin (hp_high a)) then b else a) prices = Inr bh"
    and bh': "barHigh bh = foldl scanHigh initHigh prices"
    using reduce1_high [OF assms] by blast
  obtain bl where bl: "reduce1 (\<lambda>a b. if num_lt (Fin (hp_low b)) (Fin (hp_low a)) then b else a) prices = Inr bl"
    and bl': "barLow bl = foldl scanLow initLow prices"
    using reduce1_low [OF assms] by blast
  show ?thesis
    unfolding detectSwingPointsRolling_def Let_def bh bl bh' [symmetric] bl' [symmetric]
    by (simp add: barHigh_def barLow_def)
qed

lemma sentinel_tests [simp]:
  "num_eq (sp_price initHigh) NegInfinity" "\<not> num_eq (sp_price (barHigh b)) NegInfinity"
  "num_eq (sp_price initLow) PosInfinity" "\<not> num_eq (sp_price (barLow b)) PosInfinity"
  by (simp_all add: num_eq_def initHigh_def initLow_def barHigh_def barLow_def)

text \<open>
  Claim C2. In rolling-window mode with lookback \<open>L\<close>, on every non-empty price series:
  at each index \<open>i\<close> of the loop (at least \<open>L\<close> bars on each side) the test of the code
  holds exactly when the bar is a candidate in the specification's sense, its high being the
  maximum of the closed window \<open>[i - L, i + L]\<close>; when there is a candidate, the swing high
  returned is the first candidate with the largest high; when there is none, it is the swing
  high that the global mode returns for the same series. Mirrored for the swing low.
\<close>

theorem detectSwingPoints_rolling:
  assumes "prices \<noteq> []"
  shows "\<exists>sp. detectSwingPoints prices (Some L) = Inr sp
     \<and> (\<forall>i\<in>{L ..< length prices - L}.
           windowHigh prices L i = isSwingHighCandidate prices L i
           \<and> windowLow prices L i = isSwingLowCandidate prices L i)
     \<and> (if \<exists>j\<in>{0 ..< length prices}. isSwingHighCandidate prices L j
        then \<exists>k. firstLargestHigh (isSwingHighCandidate prices L) prices 0 (length prices) k
                 \<and> swingHigh sp = barHigh (prices ! k)
        else \<exists>g. detectSwingPoints prices None = Inr g \<and> swingHigh sp = swingHigh g)
     \<and> (if \<exists>j\<in>{0 ..< length prices}. isSwingLowCandidate prices L j
        then \<exists>k. firstSmallestLow (isSwingLowCandidate prices L) prices 0 (length prices) k
                 \<and> swingLow sp = barLow (prices ! k)
        else \<exists>g. detectSwingPoints prices None = Inr g \<and> swingLow sp = swingLow g)"
proof -
  let ?h = "swingHigh (foldl (rollingBar prices L) initSwing [L ..< length prices - L])"
  let ?w = "swingLow (foldl (rollingBar prices L) initSwing [L ..< length prices - L])"
  let ?sp = "\<lparr>swingHigh = (if num_eq (sp_price ?h) NegInfinity then foldl scanHigh initHigh prices else ?h),
              swingLow = (if num_eq (sp_price ?w) PosInfinity then foldl scanLow initLow prices else ?w)\<rparr>"
  have r: "detectSwingPoints prices (Some L) = Inr ?sp"
    using assms rolling_result [OF assms, of L] by (simp add: detectSwingPoints_def Let_def)
  have g: "detectSwingPoints prices None =
     Inr \<lparr>swingHigh = foldl scanHigh initHigh prices, swingLow = foldl scanLow initLow prices\<rparr>"
    by (rule detect_global [OF assms])
  have w: "\<forall>i\<in>{L ..< length prices - L}.
           windowHigh prices L i = isSwingHighCandidate prices L i
           \<and> windowLow prices L i = isSwingLowCandidate prices L i"
    by (auto simp: windowHigh_iff windowLow_iff)
  have hi: "if \<exists>j\<in>{0 ..< length prices}. isSwingHighCandidate prices L j
        then \<exists>k. firstLargestHigh (isSwingHighCandidate prices L) prices 0 (length prices) k
                 \<and> swingHigh ?sp = barHigh (prices ! k)
        else \<exists>g. detectSwingPoints prices None = Inr g \<and> swingHigh ?sp = swingHigh g"
  proof (cases "\<exists>j\<in>{0 ..< length prices}. isSwingHighCandidate prices L j")
    case True
    then obtain k where "firstLargestHigh (isSwingHighCandidate prices L) prices 0 (length prices) k"
      and "?h = barHigh (prices ! k)"
      using rolling_high [of prices L] by auto
    then show ?thesis using True by auto
  next
    case False
    then have "?h = initHigh" using rolling_high [of prices L] by auto
    then show ?thesis using False g by simp
  qed
  have lo: "if \<exists>j\<in>{0 ..< length prices}. isSwingLowCandidate prices L j
        then \<exists>k. firstSmallestLow (isSwingLowCandidate prices L) prices 0 (length prices) k
                 \<and> swingLow ?sp = barLow (prices ! k)
        else \<exists>g. detectSwingPoints prices None = Inr g \<and> swingLow ?sp = swingLow g"
  proof (cases "\<exists>j\<in>{0 ..< length prices}. isSwingLowCandidate prices L j")
    case True
    then obtain k where "firstSmallestLow (isSwingLowCandidate prices L) prices 0 (length prices) k"
      and "?w = barLow (prices ! k)"
      using rolling_low [of prices L] by auto
    then show ?thesis using True by auto
  next
    case False
    then have "?w = initLow" using rolling_low [of prices L] by auto
    then show ?thesis using False g by simp
  qed
  from r w hi lo show ?thesis by blast
qed

section \<open>The analysis pipeline never fails on bars\<close>

lemma detect_global_ok: "prices \<noteq> [] \<Longrightarrow> \<exists>s. detectSwingPoints prices None = Inr s"
  by (simp add: detectSwingPoints_def)

text \<open>
  Claim C9. \<open>analyzeTicker\<close> fails with the error for empty input exactly when the price
  series has no bar, and returns a result exactly when the series is non-empty.
\<close>

theorem analyzeTicker_fails_iff_empty:
  "(analyzeTicker ticker prices currentPrice = Inl EmptyInputError) = (prices = [])
   \<and> (\<exists>r. analyzeTicker ticker prices currentPrice = Inr r) = (prices \<noteq> [])"
proof (cases "prices = []")
  case True
  then show ?thesis by (simp add: analyzeTicker_def detectSwingPoints_def)
next
  case False
  obtain s where s: "determineSignal currentPrice (calculateFibLevels (sp_price (swingHigh (foldl scanBar initSwing prices))) (sp_price (swingLow (foldl scanBar initSwing prices))) (detectTrend (foldl scanBar initSwing prices))) (detectTrend (foldl scanBar initSwing prices)) = Inr s"
    using determineSignal_ok by blast
  with False show ?thesis
    by (simp add: analyzeTicker_def detectSwingPoints_def Let_def)
qed

section \<open>The walk of the backtest\<close>

lemma reduce1_nonempty: "xs \<noteq> [] \<Longrightarrow> \<exists>b. reduce1 f xs = Inr b"
  by (cases xs) (simp_all add: reduce1_def)

lemma detectSwingPointsRolling_ok:
  "prices \<noteq> [] \<Longrightarrow> \<exists>s. detectSwingPointsRolling prices l = Inr s"
  by (cases prices) (simp_all add: detectSwingPointsRolling_def Let_def reduce1_def)

lemma slice_window_nonempty:
  "i < length prices \<Longrightarrow> SWING_WINDOW \<le> i \<Longrightarrow> slice prices (i - SWING_WINDOW) i \<noteq> []"
  by (auto simp: slice_def SWING_WINDOW_def)

lemma detect_window_ok:
  "i < length prices \<Longrightarrow> SWING_WINDOW \<le> i \<Longrightarrow>
   \<exists>s. detectSwingPoints (slice prices (i - SWING_WINDOW) i) (Some SWING_LOOKBACK) = Inr s"
  using detectSwingPointsRolling_ok [OF slice_window_nonempty]
  by (simp add: detectSwingPoints_def slice_window_nonempty)

text \<open>One step of the walk either leaves the state alone or logs one touch at index i.\<close>

lemma walkBar_cases:
  assumes "walkBar prices st i = Inr st'"
  shows "st' = st \<or>
         (\<exists>t. st' = \<lparr>touches = touches st @ [t], lastTouchIndex = Fin (real i)\<rparr>
              \<and> gt_date t = hp_date (prices ! i) \<and> i < length prices
              \<and> \<not> num_lt (num_sub (Fin (real i)) (lastTouchIndex st)) (Fin (real COOLDOWN_BARS)))"
  using assms
  by (auto simp: walkBar_def Let_def nth_opt_def split: if_splits sum.splits option.splits)

lemma walkBar_ok:
  assumes "SWING_WINDOW \<le> i" "i + OUTCOME_HORIZON < length prices"
  shows "\<exists>st'. walkBar prices st i = Inr st'"
proof -
  have "i < length prices" using assms by simp
  then obtain s where s: "detectSwingPoints (slice prices (i - SWING_WINDOW) i) (Some SWING_LOOKBACK) = Inr s"
    using detect_window_ok assms(1) by blast
  show ?thesis using assms \<open>i < length prices\<close>
    by (simp add: walkBar_def Let_def s nth_opt_def split: option.splits)
qed

lemma walk_ok:
  "\<forall>i\<in>set is. SWING_WINDOW \<le> i \<and> i + OUTCOME_HORIZON < length prices \<Longrightarrow>
   \<exists>st'. walk prices st is = Inr st'"
proof (induction "is" arbitrary: st)
  case Nil
  then show ?case by simp
next
  case (Cons i "is")
  then obtain st1 where "walkBar prices st i = Inr st1"
    using walkBar_ok [of i prices st] by auto
  moreover obtain st2 where "walk prices st1 is = Inr st2"
    using Cons by auto
  ultimately show ?case by simp
qed

lemma walk_range_ok:
  "\<exists>st'. walk prices st [SWING_WINDOW ..< length prices - OUTCOME_HORIZON] = Inr st'"
  by (rule walk_ok) auto

lemma backtest_total_aux: "\<exists>r. backtestGoldenZone ticker prices = Inr r"
proof -
  obtain st' where "walk prices \<lparr>touches = [], lastTouchIndex = NegInfinity\<rparr>
      [SWING_WINDOW ..< length prices - OUTCOME_HORIZON] = Inr st'"
    using walk_range_ok by blast
  then show ?thesis by (simp add: backtestGoldenZone_def Let_def)
qed

lemma backtest_short:
  assumes "length prices \<le> SWING_WINDOW + OUTCOME_HORIZON"
  shows "backtestGoldenZone ticker prices =
     Inr \<lparr>br_ticker = toUpperCase ticker, br_totalBars = length prices, br_touches = [],
          br_successes = 0, br_failures = 0, br_winRate = Fin 0\<rparr>"
proof -
  have e: "[SWING_WINDOW ..< length prices - OUTCOME_HORIZON] = []" using assms by simp
  show ?thesis unfolding backtestGoldenZone_def Let_def e by simp
qed

lemma gap_sorted_le_last:
  "sorted_wrt (\<lambda>a b. a + c \<le> b) xs \<Longrightarrow> x \<in> set xs \<Longrightarrow> x \<le> last (xs :: nat list)"
proof (induction xs rule: rev_induct)
  case Nil
  then show ?case by simp
next
  case (snoc y ys)
  then show ?case by (auto simp: sorted_wrt_append)
qed

lemma distinct_map_index:
  "distinct (map f xs) \<Longrightarrow> i < length xs \<Longrightarrow> j < length xs \<Longrightarrow> f (xs ! i) = f (xs ! j) \<Longrightarrow> i = j"
  using nth_eq_iff_index_eq [of "map f xs" i j] by simp

lemma cooldown_passed:
  "\<not> num_lt (num_sub (Fin (real i)) (Fin (real l))) (Fin (real COOLDOWN_BARS)) \<Longrightarrow>
   l + COOLDOWN_BARS \<le> i"
  by (simp add: num_sub_def)

lemma walk_inv_step:
  assumes inv: "walk_inv prices st idxs"
    and step: "walkBar prices st i = Inr st'"
  shows "walk_inv prices st' idxs \<or> walk_inv prices st' (idxs @ [i])"
proof -
  from walkBar_cases [OF step] show ?thesis
  proof
    assume "st' = st"
    with inv show ?thesis by simp
  next
    assume "\<exists>t. st' = \<lparr>touches = touches st @ [t], lastTouchIndex = Fin (real i)\<rparr>
              \<and> gt_date t = hp_date (prices ! i) \<and> i < length prices
              \<and> \<not> num_lt (num_sub (Fin (real i)) (lastTouchIndex st)) (Fin (real COOLDOWN_BARS))"
    then obtain t where st': "st' = \<lparr>touches = touches st @ [t], lastTouchIndex = Fin (real i)\<rparr>"
      and d: "gt_date t = hp_date (prices ! i)" and r: "i < length prices"
      and c: "\<not> num_lt (num_sub (Fin (real i)) (lastTouchIndex st)) (Fin (real COOLDOWN_BARS))"
      by blast
    have gap: "\<forall>x\<in>set idxs. x + COOLDOWN_BARS \<le> i"
    proof
      fix x assume x: "x \<in> set idxs"
      then have ne: "idxs \<noteq> []" by auto
      with inv have "lastTouchIndex st = Fin (real (last idxs))" by (simp add: walk_inv_def)
      with c have "last idxs + COOLDOWN_BARS \<le> i" using cooldown_passed by simp
      moreover have "x \<le> last idxs"
        using inv x gap_sorted_le_last by (auto simp: walk_inv_def)
      ultimately show "x + COOLDOWN_BARS \<le> i" by simp
    qed
    have "walk_inv prices st' (idxs @ [i])"
      using inv gap d r by (simp add: walk_inv_def st' sorted_wrt_append)
    then show ?thesis ..
  qed
qed

lemma walk_inv_walk:
  "walk_inv prices st idxs \<Longrightarrow> walk prices st is = Inr st' \<Longrightarrow> \<exists>idxs'. walk_inv prices st' idxs'"
proof (induction "is" arbitrary: st idxs)
  case Nil
  then show ?case by auto
next
  case (Cons i "is")
  from Cons.prems(2) obtain st1 where s1: "walkBar prices st i = Inr st1"
    and s2: "walk prices st1 is = Inr st'"
    by (auto split: sum.splits)
  from walk_inv_step [OF Cons.prems(1) s1] Cons.IH s2 show ?case by blast
qed

lemma walk_inv_init: "walk_inv prices \<lparr>touches = [], lastTouchIndex = NegInfinity\<rparr> []"
  by (simp add: walk_inv_def)

lemma backtest_touch_indices:
  assumes "backtestGoldenZone ticker prices = Inr r"
  shows "\<exists>idxs. map gt_date (br_touches r) = map (\<lambda>i. hp_date (prices ! i)) idxs
           \<and> (\<forall>k\<in>set idxs. k < length prices)
           \<and> sorted_wrt (\<lambda>a b. a + COOLDOWN_BARS \<le> b) idxs"
proof -
  from assms obtain st where w: "walk prices \<lparr>touches = [], lastTouchIndex = NegInfinity\<rparr>
      [SWING_WINDOW ..< length prices - OUTCOME_HORIZON] = Inr st" and t: "br_touches r = touches st"
    by (auto simp: backtestGoldenZone_def Let_def split: sum.splits)
  from walk_inv_walk [OF walk_inv_init w] obtain idxs where "walk_inv prices st idxs" by blast
  then show ?thesis by (auto simp: walk_inv_def t list_all_iff)
qed

lemma cooldown_between_dates:
  assumes "distinct (map hp_date prices)"
    and "backtestGoldenZone ticker prices = Inr r"
    and "a < b" and "b < length (br_touches r)"
    and "i < length prices" and "j < length prices"
    and "hp_date (prices ! i) = gt_date (br_touches r ! a)"
    and "hp_date (prices ! j) = gt_date (br_touches r ! b)"
  shows "i + COOLDOWN_BARS \<le> j"
proof -
  from backtest_touch_indices [OF assms(2)] obtain idxs where
    m: "map gt_date (br_touches r) = map (\<lambda>i. hp_date (prices ! i)) idxs"
    and rng: "\<forall>k\<in>set idxs. k < length prices"
    and gap: "sorted_wrt (\<lambda>a b. a + COOLDOWN_BARS \<le> b) idxs" by blast
  have len: "length idxs = length (br_touches r)"
    using m by (metis length_map)
  have da: "gt_date (br_touches r ! a) = hp_date (prices ! (idxs ! a))"
    using assms(3,4) len nth_map [of a "br_touches r" gt_date] nth_map [of a idxs "\<lambda>i. hp_date (prices ! i)"] m
    by simp
  have db: "gt_date (br_touches r ! b) = hp_date (prices ! (idxs ! b))"
    using assms(4) len nth_map [of b "br_touches r" gt_date] nth_map [of b idxs "\<lambda>i. hp_date (prices ! i)"] m
    by simp
  have ia: "idxs ! a < length prices" and ib: "idxs ! b < length prices"
    using rng assms(3,4) len by auto
  have i: "i = idxs ! a"
    using distinct_map_index [OF assms(1) assms(5) ia] assms(7) da by simp
  have j: "j = idxs ! b"
    using distinct_map_index [OF assms(1) assms(6) ib] assms(8) db by simp
  have "idxs ! a + COOLDOWN_BARS \<le> idxs ! b"
    using sorted_wrt_nth_less [OF gap assms(3)] assms(4) len by simp
  with i j show ?thesis by simp
qed

text \<open>
  Claim C8. Let \<open>backtestGoldenZone\<close> return a result. Its touches were logged at bar
  indices \<open>idxs\<close>, one per touch and in this order, each touch carrying the date of its
  bar, and any two of these indices are at least \<open>COOLDOWN_BARS = 10\<close> apart. When the dates
  of the series are distinct, the bar of a touch is determined by its date: for two touches,
  the one at position \<open>a\<close> of the list before the one at position \<open>b\<close>, and the bars \<open>i\<close>
  and \<open>j\<close> that carry their dates, \<open>j - i \<ge> COOLDOWN_BARS\<close>. So no two recorded touches
  have a bar-index difference below 10.
\<close>

theorem backtest_cooldown:
  assumes "backtestGoldenZone ticker prices = Inr r"
  shows "(\<exists>idxs. map gt_date (br_touches r) = map (\<lambda>i. hp_date (prices ! i)) idxs
            \<and> (\<forall>k\<in>set idxs. k < length prices)
            \<and> sorted_wrt (\<lambda>a b. a + COOLDOWN_BARS \<le> b) idxs)
       \<and> (distinct (map hp_date prices) \<longrightarrow>
            (\<forall>a b i j. a < b \<and> b < length (br_touches r)
                \<and> i < length prices \<and> j < length prices
                \<and> hp_date (prices ! i) = gt_date (br_touches r ! a)
                \<and> hp_date (prices ! j) = gt_date (br_touches r ! b)
               \<longrightarrow> i + COOLDOWN_BARS \<le> j))"
  using backtest_touch_indices [OF assms] cooldown_between_dates [OF _ assms] by blast

section \<open>The rising series\<close>

lemma rising_swing:
  assumes len: "length prices = 130"
    and rise: "\<forall>i j. i < j \<and> j < 130 \<longrightarrow>
           hp_high (prices ! i) < hp_high (prices ! j) \<and> hp_low (prices ! i) < hp_low (prices ! j)"
  shows "detectSwingPoints prices None =
           Inr \<lparr>swingHigh = barHigh (prices ! 129), swingLow = barLow (prices ! 0)\<rparr>"
proof -
  have ne: "prices \<noteq> []" using len by auto
  obtain k where k: "firstLargestHigh (\<lambda>_. True) prices 0 (length prices) k"
    and hi: "foldl scanHigh initHigh prices = barHigh (prices ! k)"
    using foldl_scanHigh_first [OF ne] by blast
  obtain m where m: "firstSmallestLow (\<lambda>_. True) prices 0 (length prices) m"
    and lo: "foldl scanLow initLow prices = barLow (prices ! m)"
    using foldl_scanLow_first [OF ne] by blast
  have "k < 130" "hp_high (prices ! 129) \<le> hp_high (prices ! k)"
    using k len by (auto simp: firstLargestHigh_def)
  then have k129: "k = 129" using rise by (cases "k < 129") (force, simp)
  have "m < 130" "hp_low (prices ! m) \<le> hp_low (prices ! 0)"
    using m len by (auto simp: firstSmallestLow_def)
  then have m0: "m = 0" using rise by (cases "0 < m") (force, simp)
  show ?thesis using detect_global [OF ne] hi lo k129 m0 by simp
qed

text \<open>
  Claim C3. Take a series of 130 bars whose highs and lows rise strictly from bar to bar
  (every bar has a lower high and a lower low than every later bar), with
  the low of the first day at 100.00, the high of the last day at 200.00 and the date of the
  first day before the date of the last. Then \<open>analyzeTicker\<close> with a current price of
  180.00 returns a result with trend uptrend, the swing low on day 1 and the swing high on day
  130, a Golden Zone level (ratio 0.618) of 138.20, a shallow level (ratio 0.236) of 176.40,
  and the signal favorable (\<open>Success\<close>).
\<close>

theorem analyzeTicker_rising_series:
  assumes len: "length prices = 130"
    and rising: "sorted_wrt (\<lambda>a b. hp_high a < hp_high b \<and> hp_low a < hp_low b) prices"
    and dates: "str_lt (hp_date (prices ! 0)) (hp_date (prices ! 129))"
    and first: "hp_low (prices ! 0) = 100"
    and last: "hp_high (prices ! 129) = 200"
  shows "\<exists>r. analyzeTicker ticker prices (Fin 180) = Inr r
     \<and> fls_trend r = Uptrend
     \<and> fls_low r = \<lparr>sp_price = Fin 100, sp_date = hp_date (prices ! 0)\<rparr>
     \<and> fls_high r = \<lparr>sp_price = Fin 200, sp_date = hp_date (prices ! 129)\<rparr>
     \<and> fl_isGoldenZone (fls_levels r ! 3)
     \<and> fl_ratio (fls_levels r ! 3) = Fin 0.618
     \<and> fl_price (fls_levels r ! 3) = Fin 138.20
     \<and> fl_ratio (fls_levels r ! 0) = Fin 0.236
     \<and> fl_price (fls_levels r ! 0) = Fin 176.40
     \<and> fls_signal r = Success"
proof -
  have rise: "\<forall>i j. i < j \<and> j < 130 \<longrightarrow>
           hp_high (prices ! i) < hp_high (prices ! j) \<and> hp_low (prices ! i) < hp_low (prices ! j)"
    using rising len by (simp add: sorted_wrt_iff_nth_less)
  let ?sw = "\<lparr>swingHigh = barHigh (prices ! 129), swingLow = barLow (prices ! 0)\<rparr>"
  let ?L = "calculateFibLevels (Fin 200) (Fin 100) Uptrend"
  have sw: "detectSwingPoints prices None = Inr ?sw" by (rule rising_swing [OF len rise])
  have tr: "detectTrend ?sw = Uptrend" using dates by (simp add: detectTrend_def barHigh_def barLow_def)
  have hp: "sp_price (swingHigh ?sw) = Fin 200" "sp_price (swingLow ?sw) = Fin 100"
    using first last by (simp_all add: barHigh_def barLow_def)
  have g: "fl_price (?L ! 3) = Fin 138.2" "fl_price (?L ! 0) = Fin 176.4"
    using shallow_golden_prices(1,2) [of 200 100 Uptrend] round2_138 round2_176 by simp_all
  have sig: "determineSignal (Fin 180) ?L Uptrend = Inr Success"
    by (simp add: determineSignal_levels g Let_def)
  have "analyzeTicker ticker prices (Fin 180) =
      Inr \<lparr>fls_ticker = toUpperCase ticker, fls_trend = Uptrend, fls_trendFriendly = ''Growth Era'',
           fls_high = swingHigh ?sw, fls_low = swingLow ?sw,
           fls_range = parseFloat_toFixed 2 (num_sub (Fin 200) (Fin 100)),
           fls_levels = ?L, fls_currentPrice = Fin 180, fls_signal = Success\<rparr>"
    unfolding analyzeTicker_def sw sum.case Let_def tr hp sig by simp
  then show ?thesis
    using g shallow_golden_prices(3,4,5) [of 200 100 Uptrend] first last
    by (simp add: barHigh_def barLow_def)
qed

lemma risingSeries_nth: "i < 130 \<Longrightarrow> risingSeries ! i = risingBar i"
  by (simp add: risingSeries_def)

text \<open>The claim on the example series, which rises by 100/129 a day.\<close>

theorem analyzeTicker_rising_series_witness:
  "length risingSeries = 130
   \<and> sorted_wrt (\<lambda>a b. hp_high a < hp_high b \<and> hp_low a < hp_low b) risingSeries
   \<and> str_lt (hp_date (risingSeries ! 0)) (hp_date (risingSeries ! 129))
   \<and> hp_low (risingSeries ! 0) = 100
   \<and> hp_high (risingSeries ! 129) = 200
   \<and> (\<exists>r. analyzeTicker ''aapl'' risingSeries (Fin 180) = Inr r
     \<and> fls_trend r = Uptrend
     \<and> fls_low r = \<lparr>sp_price = Fin 100, sp_date = ''2024-001''\<rparr>
     \<and> fls_high r = \<lparr>sp_price = Fin 200, sp_date = ''2024-130''\<rparr>
     \<and> fl_isGoldenZone (fls_levels r ! 3)
     \<and> fl_ratio (fls_levels r ! 3) = Fin 0.618
     \<and> fl_price (fls_levels r ! 3) = Fin 138.20
     \<and> fl_ratio (fls_levels r ! 0) = Fin 0.236
     \<and> fl_price (fls_levels r ! 0) = Fin 176.40
     \<and> fls_signal r = Success)"
proof -
  have len: "length risingSeries = 130" by (simp add: risingSeries_def)
  have rise: "sorted_wrt (\<lambda>a b. hp_high a < hp_high b \<and> hp_low a < hp_low b) risingSeries"
    by (simp add: sorted_wrt_iff_nth_less risingSeries_def risingBar_def)
  have "ordinalDate 0 = ''2024-001''" "ordinalDate 129 = ''2024-130''" by code_simp+
  then have d0: "hp_date (risingSeries ! 0) = ''2024-001''"
    and d1: "hp_date (risingSeries ! 129) = ''2024-130''"
    by (simp_all add: risingSeries_nth risingBar_def)
  have dates: "str_lt (hp_date (risingSeries ! 0)) (hp_date (risingSeries ! 129))"
    unfolding d0 d1 by simp
  have first: "hp_low (risingSeries ! 0) = 100" by (simp add: risingSeries_nth risingBar_def)
  have last: "hp_high (risingSeries ! 129) = 200" by (simp add: risingSeries_nth risingBar_def)
  from analyzeTicker_rising_series [OF len rise dates first last, of "''aapl''"] len rise dates first last d0 d1
  show ?thesis by simp
qed

section \<open>Swing detection on the series with ties\<close>

lemma tie_global:
  "detectSwingPoints tieSeries None =
     Inr \<lparr>swingHigh = \<lparr>sp_price = Fin 12, sp_date = ''2024-002''\<rparr>,
          swingLow = \<lparr>sp_price = Fin 4, sp_date = ''2024-002''\<rparr>\<rparr>"
  by (simp add: detectSwingPoints_def tieSeries_def scanBar_def initSwing_def Let_def)

lemma tie_rolling1:
  "detectSwingPoints tieSeries (Some 1) =
     Inr \<lparr>swingHigh = \<lparr>sp_price = Fin 12, sp_date = ''2024-002''\<rparr>,
          swingLow = \<lparr>sp_price = Fin 4, sp_date = ''2024-002''\<rparr>\<rparr>"
proof -
  have u: "[1 ..< length tieSeries - 1] = [1, 2, 3]" by (simp add: tieSeries_def upt_rec)
  show ?thesis
    unfolding detectSwingPoints_def detectSwingPointsRolling_def u
    by (simp add: tieSeries_def rollingBar_def initSwing_def slice_def Let_def num_eq_def)
qed

lemma tie_rolling3:
  "detectSwingPoints tieSeries (Some 3) =
     Inr \<lparr>swingHigh = \<lparr>sp_price = Fin 12, sp_date = ''2024-002''\<rparr>,
          swingLow = \<lparr>sp_price = Fin 4, sp_date = ''2024-002''\<rparr>\<rparr>"
proof -
  have u: "[3 ..< length tieSeries - 3] = []" by (simp add: tieSeries_def)
  show ?thesis
    unfolding detectSwingPoints_def detectSwingPointsRolling_def u
    by (simp add: tieSeries_def initSwing_def reduce1_def Let_def num_eq_def)
qed

text \<open>Claim C4 on the five bars of \<open>tieSeries\<close>: both extrema are attained on the second
  and on the fourth day, and the second day is returned.\<close>

theorem detectSwingPoints_global_extrema_witness:
  "tieSeries \<noteq> []
   \<and> detectSwingPoints tieSeries None =
       Inr \<lparr>swingHigh = \<lparr>sp_price = Fin 12, sp_date = ''2024-002''\<rparr>,
            swingLow = \<lparr>sp_price = Fin 4, sp_date = ''2024-002''\<rparr>\<rparr>
   \<and> Max (hp_high ` set tieSeries) = 12
   \<and> Min (hp_low ` set tieSeries) = 4
   \<and> (\<exists>i k. firstLargestHigh (\<lambda>_. True) tieSeries 0 (length tieSeries) i
           \<and> barHigh (tieSeries ! i) = \<lparr>sp_price = Fin 12, sp_date = ''2024-002''\<rparr>
           \<and> firstSmallestLow (\<lambda>_. True) tieSeries 0 (length tieSeries) k
           \<and> barLow (tieSeries ! k) = \<lparr>sp_price = Fin 4, sp_date = ''2024-002''\<rparr>)"
proof -
  have ne: "tieSeries \<noteq> []" by (simp add: tieSeries_def)
  from detectSwingPoints_global_extrema [OF ne] obtain sp i k where
    sp: "detectSwingPoints tieSeries None = Inr sp"
    and mx: "sp_price (swingHigh sp) = Fin (Max (hp_high ` set tieSeries))"
    and mn: "sp_price (swingLow sp) = Fin (Min (hp_low ` set tieSeries))"
    and i: "firstLargestHigh (\<lambda>_. True) tieSeries 0 (length tieSeries) i"
      "swingHigh sp = barHigh (tieSeries ! i)"
    and k: "firstSmallestLow (\<lambda>_. True) tieSeries 0 (length tieSeries) k"
      "swingLow sp = barLow (tieSeries ! k)"
    by blast
  from sp tie_global have e: "sp = \<lparr>swingHigh = \<lparr>sp_price = Fin 12, sp_date = ''2024-002''\<rparr>,
            swingLow = \<lparr>sp_price = Fin 4, sp_date = ''2024-002''\<rparr>\<rparr>" by simp
  from mx mn have "Max (hp_high ` set tieSeries) = 12" "Min (hp_low ` set tieSeries) = 4"
    unfolding e by simp_all
  moreover from i k have "\<exists>i k. firstLargestHigh (\<lambda>_. True) tieSeries 0 (length tieSeries) i
           \<and> barHigh (tieSeries ! i) = \<lparr>sp_price = Fin 12, sp_date = ''2024-002''\<rparr>
           \<and> firstSmallestLow (\<lambda>_. True) tieSeries 0 (length tieSeries) k
           \<and> barLow (tieSeries ! k) = \<lparr>sp_price = Fin 4, sp_date = ''2024-002''\<rparr>"
    unfolding e by auto
  ultimately show ?thesis using ne tie_global by blast
qed

lemma tie_candidates:
  "isSwingHighCandidate tieSeries 1 1" "isSwingLowCandidate tieSeries 1 1"
proof -
  have "windowHigh tieSeries 1 1" "windowLow tieSeries 1 1"
    by (simp_all add: windowHigh_def windowLow_def slice_def tieSeries_def)
  then show "isSwingHighCandidate tieSeries 1 1" "isSwingLowCandidate tieSeries 1 1"
    using windowHigh_iff [of 1 1 tieSeries] windowLow_iff [of 1 1 tieSeries]
    by (simp_all add: tieSeries_def)
qed

text \<open>Claim C2 on the five bars of \<open>tieSeries\<close>. With lookback 1 the loop visits the indices
  1, 2 and 3, and the second day is the first candidate with the largest high and the smallest
  low; with lookback 3 the loop visits no index and the result is the one of the global
  mode.\<close>

theorem detectSwingPoints_rolling_witness:
  "tieSeries \<noteq> []
   \<and> detectSwingPoints tieSeries (Some 1) =
       Inr \<lparr>swingHigh = \<lparr>sp_price = Fin 12, sp_date = ''2024-002''\<rparr>,
            swingLow = \<lparr>sp_price = Fin 4, sp_date = ''2024-002''\<rparr>\<rparr>
   \<and> isSwingHighCandidate tieSeries 1 1 \<and> isSwingLowCandidate tieSeries 1 1
   \<and> (\<exists>k. firstLargestHigh (isSwingHighCandidate tieSeries 1) tieSeries 0 (length tieSeries) k
           \<and> barHigh (tieSeries ! k) = \<lparr>sp_price = Fin 12, sp_date = ''2024-002''\<rparr>)
   \<and> (\<exists>k. firstSmallestLow (isSwingLowCandidate tieSeries 1) tieSeries 0 (length tieSeries) k
           \<and> barLow (tieSeries ! k) = \<lparr>sp_price = Fin 4, sp_date = ''2024-002''\<rparr>)
   \<and> detectSwingPoints tieSeries (Some 3) = detectSwingPoints tieSeries None"
proof -
  have ne: "tieSeries \<noteq> []" by (simp add: tieSeries_def)
  have ch: "\<exists>j\<in>{0 ..< length tieSeries}. isSwingHighCandidate tieSeries 1 j"
    using tie_candidates(1) by (intro bexI [of _ 1]) (simp_all add: tieSeries_def)
  have cl: "\<exists>j\<in>{0 ..< length tieSeries}. isSwingLowCandidate tieSeries 1 j"
    using tie_candidates(2) by (intro bexI [of _ 1]) (simp_all add: tieSeries_def)
  from detectSwingPoints_rolling [OF ne, of 1] ch cl obtain sp kh kl where
    sp: "detectSwingPoints tieSeries (Some 1) = Inr sp"
    and kh: "firstLargestHigh (isSwingHighCandidate tieSeries 1) tieSeries 0 (length tieSeries) kh"
      "swingHigh sp = barHigh (tieSeries ! kh)"
    and kl: "firstSmallestLow (isSwingLowCandidate tieSeries 1) tieSeries 0 (length tieSeries) kl"
      "swingLow sp = barLow (tieSeries ! kl)"
    by auto
  from sp tie_rolling1 have e: "sp = \<lparr>swingHigh = \<lparr>sp_price = Fin 12, sp_date = ''2024-002''\<rparr>,
            swingLow = \<lparr>sp_price = Fin 4, sp_date = ''2024-002''\<rparr>\<rparr>" by simp
  from kh have "\<exists>k. firstLargestHigh (isSwingHighCandidate tieSeries 1) tieSeries 0 (length tieSeries) k
           \<and> barHigh (tieSeries ! k) = \<lparr>sp_price = Fin 12, sp_date = ''2024-002''\<rparr>"
    unfolding e by auto
  moreover from kl have "\<exists>k. firstSmallestLow (isSwingLowCandidate tieSeries 1) tieSeries 0 (length tieSeries) k
           \<and> barLow (tieSeries ! k) = \<lparr>sp_price = Fin 4, sp_date = ''2024-002''\<rparr>"
    unfolding e by auto
  moreover have "detectSwingPoints tieSeries (Some 3) = detectSwingPoints tieSeries None"
    by (simp only: tie_rolling3 tie_global)
  ultimately show ?thesis using ne tie_rolling1 tie_candidates by blast
qed

section \<open>The backtest returns a result for every series\<close>

text \<open>
  Claim C1, as amended. \<open>backtestGoldenZone\<close> never fails: for every ticker and every price
  series, of any length, it returns a result that counts the bars of the series; when the
  series has at most \<open>SWING_WINDOW + OUTCOME_HORIZON = 150\<close> bars the walk visits no bar, and
  the result has no touch, no success, no failure and a win rate of 0.
\<close>

theorem backtest_never_fails:
  "\<exists>r. backtestGoldenZone ticker prices = Inr r
       \<and> br_totalBars r = length prices
       \<and> (length prices \<le> SWING_WINDOW + OUTCOME_HORIZON \<longrightarrow>
            br_touches r = [] \<and> br_successes r = 0 \<and> br_failures r = 0 \<and> br_winRate r = Fin 0)"
proof -
  obtain r where r: "backtestGoldenZone ticker prices = Inr r"
    using backtest_total_aux by blast
  then have "br_totalBars r = length prices"
    by (auto simp: backtestGoldenZone_def Let_def split: sum.splits)
  moreover have "br_touches r = [] \<and> br_successes r = 0 \<and> br_failures r = 0 \<and> br_winRate r = Fin 0"
    if "length prices \<le> SWING_WINDOW + OUTCOME_HORIZON"
    using backtest_short [OF that, of ticker] r by simp
  ultimately show ?thesis using r by blast
qed

lemma upper_aapl: "toUpperCase ''aapl'' = ''AAPL''"
  by code_simp

lemma flatSeries_length: "length flatSeries = 171"
  by (simp add: flatSeries_def)

text \<open>The amended claim on the first 150 bars of \<open>flatSeries\<close>.\<close>

theorem backtest_never_fails_witness:
  "length (take 150 flatSeries) \<le> SWING_WINDOW + OUTCOME_HORIZON
   \<and> (\<exists>r. backtestGoldenZone ''aapl'' (take 150 flatSeries) = Inr r
       \<and> br_totalBars r = 150
       \<and> br_touches r = [] \<and> br_successes r = 0 \<and> br_failures r = 0 \<and> br_winRate r = Fin 0)"
proof -
  have s: "length (take 150 flatSeries) \<le> SWING_WINDOW + OUTCOME_HORIZON"
    by (simp add: flatSeries_length SWING_WINDOW_def OUTCOME_HORIZON_def)
  from backtest_never_fails [of "''aapl''" "take 150 flatSeries"] s show ?thesis
    by (auto simp: flatSeries_length)
qed

text \<open>
  Claim C1 as stated fails on a series of exactly 150 bars: \<open>backtestGoldenZone\<close> does not
  fail there, it returns a result with an empty list of touches.
\<close>

theorem backtest_short_series_counterexample:
  "length (take 150 flatSeries) = 150
   \<and> 150 \<le> SWING_WINDOW + OUTCOME_HORIZON
   \<and> backtestGoldenZone ''aapl'' (take 150 flatSeries) =
       Inr \<lparr>br_ticker = ''AAPL'', br_totalBars = 150, br_touches = [],
            br_successes = 0, br_failures = 0, br_winRate = Fin 0\<rparr>"
proof -
  have s: "length (take 150 flatSeries) \<le> SWING_WINDOW + OUTCOME_HORIZON"
    by (simp add: flatSeries_length SWING_WINDOW_def OUTCOME_HORIZON_def)
  show ?thesis
    using backtest_short [OF s, of "''aapl''"]
    by (simp add: flatSeries_length upper_aapl SWING_WINDOW_def OUTCOME_HORIZON_def)
qed

section \<open>The walk over the flat series\<close>

lemma flatSeries_nth: "j < 171 \<Longrightarrow> flatSeries ! j = flatBar j"
  by (simp add: flatSeries_def)

lemma flat_window:
  assumes "120 \<le> i" "i \<le> 171"
  shows "length (slice flatSeries (i - 120) i) = 120"
    and "n < 120 \<Longrightarrow> slice flatSeries (i - 120) i ! n = flatBar (i - 120 + n)"
  using assms by (auto simp: slice_def flatSeries_length flatSeries_nth)

text \<open>In a window whose bars all have the same high and the same low, every interior index is
  a candidate and the first interior index is the first largest and the first smallest.\<close>

lemma level_window_high:
  assumes "\<forall>n<length w. hp_high (w ! n) = c" "2 * l < length w"
  shows "firstLargestHigh (isSwingHighCandidate w l) w 0 (length w) k = (k = l)"
proof -
  have cand: "\<And>j. isSwingHighCandidate w l j = (l \<le> j \<and> j + l < length w)"
    using assms(1) by (auto simp: isSwingHighCandidate_def)
  show ?thesis
  proof
    assume f: "firstLargestHigh (isSwingHighCandidate w l) w 0 (length w) k"
    then have k: "l \<le> k" "k + l < length w" by (auto simp: firstLargestHigh_def cand)
    show "k = l"
    proof (rule ccontr)
      assume "k \<noteq> l"
      then have "l \<in> {0 ..< k}" "isSwingHighCandidate w l l" using k assms(2) by (auto simp: cand)
      with f have "hp_high (w ! l) < hp_high (w ! k)" by (auto simp: firstLargestHigh_def)
      then show False using assms k by simp
    qed
  next
    assume "k = l"
    then show "firstLargestHigh (isSwingHighCandidate w l) w 0 (length w) k"
      using assms by (auto simp: firstLargestHigh_def cand)
  qed
qed

lemma level_window_low:
  assumes "\<forall>n<length w. hp_low (w ! n) = c" "2 * l < length w"
  shows "firstSmallestLow (isSwingLowCandidate w l) w 0 (length w) k = (k = l)"
proof -
  have cand: "\<And>j. isSwingLowCandidate w l j = (l \<le> j \<and> j + l < length w)"
    using assms(1) by (auto simp: isSwingLowCandidate_def)
  show ?thesis
  proof
    assume f: "firstSmallestLow (isSwingLowCandidate w l) w 0 (length w) k"
    then have k: "l \<le> k" "k + l < length w" by (auto simp: firstSmallestLow_def cand)
    show "k = l"
    proof (rule ccontr)
      assume "k \<noteq> l"
      then have "l \<in> {0 ..< k}" "isSwingLowCandidate w l l" using k assms(2) by (auto simp: cand)
      with f have "hp_low (w ! k) < hp_low (w ! l)" by (auto simp: firstSmallestLow_def)
      then show False using assms k by simp
    qed
  next
    assume "k = l"
    then show "firstSmallestLow (isSwingLowCandidate w l) w 0 (length w) k"
      using assms by (auto simp: firstSmallestLow_def cand)
  qed
qed

lemma level_window_swing:
  assumes h: "\<forall>n<length w. hp_high (w ! n) = c" and lo: "\<forall>n<length w. hp_low (w ! n) = d"
    and l: "2 * l < length w"
  shows "detectSwingPoints w (Some l) = Inr \<lparr>swingHigh = barHigh (w ! l), swingLow = barLow (w ! l)\<rparr>"
proof -
  have ne: "w \<noteq> []" using l by auto
  have ch: "\<exists>j\<in>{0 ..< length w}. isSwingHighCandidate w l j"
    using level_window_high [OF h l, of l] by (auto simp: firstLargestHigh_def)
  have cl: "\<exists>j\<in>{0 ..< length w}. isSwingLowCandidate w l j"
    using level_window_low [OF lo l, of l] by (auto simp: firstSmallestLow_def)
  have 1: "swingHigh (foldl (rollingBar w l) initSwing [l ..< length w - l]) = barHigh (w ! l)"
    using rolling_high [of w l] ch level_window_high [OF h l] by auto
  have 2: "swingLow (foldl (rollingBar w l) initSwing [l ..< length w - l]) = barLow (w ! l)"
    using rolling_low [of w l] cl level_window_low [OF lo l] by auto
  show ?thesis
    using ne rolling_result [OF ne, of l] by (simp add: detectSwingPoints_def 1 2 Let_def)
qed

lemma flat_swing:
  assumes "120 \<le> i" "i \<le> 171"
  shows "detectSwingPoints (slice flatSeries (i - SWING_WINDOW) i) (Some SWING_LOOKBACK) =
           Inr \<lparr>swingHigh = barHigh (flatBar (i - 110)), swingLow = barLow (flatBar (i - 110))\<rparr>"
proof -
  let ?w = "slice flatSeries (i - 120) i"
  have len: "length ?w = 120" by (rule flat_window(1) [OF assms])
  have h: "\<forall>n<length ?w. hp_high (?w ! n) = 100"
    using flat_window(2) [OF assms] len by (simp add: flatBar_def)
  have lo: "\<forall>n<length ?w. hp_low (?w ! n) = 0"
    using flat_window(2) [OF assms] len by (simp add: flatBar_def)
  have "?w ! 10 = flatBar (i - 110)" using flat_window(2) [OF assms, of 10] assms by simp
  then show ?thesis
    using level_window_swing [OF h lo, of 10] len
    by (simp add: SWING_WINDOW_def SWING_LOOKBACK_def)
qed

lemma flat_golden:
  "find fl_isGoldenZone (calculateFibLevels (Fin 100) (Fin 0) Downtrend)
     = Some (calculateFibLevels (Fin 100) (Fin 0) Downtrend ! 3)"
  "fl_price (calculateFibLevels (Fin 100) (Fin 0) Downtrend ! 3) = Fin 61.8"
proof -
  show "find fl_isGoldenZone (calculateFibLevels (Fin 100) (Fin 0) Downtrend)
     = Some (calculateFibLevels (Fin 100) (Fin 0) Downtrend ! 3)" by (rule find_golden)
  have "round2 (0 + (100 - 0) * 0.618) = 61.8" by (simp add: round2_def toFixed_n_def Let_def)
  then show "fl_price (calculateFibLevels (Fin 100) (Fin 0) Downtrend ! 3) = Fin 61.8"
    using shallow_golden_prices(2) [of 100 0 Downtrend] by simp
qed

lemma flat_walkBar:
  assumes "120 \<le> i" "i + 30 < 171"
  shows "walkBar flatSeries st i =
     (if num_lt (num_sub (Fin (real i)) (lastTouchIndex st)) (Fin 10) then Inr st
      else Inr \<lparr>touches = touches st @ [flatTouch i], lastTouchIndex = Fin (real i)\<rparr>)"
proof -
  have i: "i \<le> 171" "i < 171" using assms by simp_all
  have tr: "detectTrend \<lparr>swingHigh = barHigh (flatBar (i - 110)), swingLow = barLow (flatBar (i - 110))\<rparr> = Downtrend"
    by (simp add: detectTrend_def barHigh_def barLow_def)
  have pr: "sp_price (barHigh (flatBar (i - 110))) = Fin 100" "sp_price (barLow (flatBar (i - 110))) = Fin 0"
    by (simp_all add: barHigh_def barLow_def flatBar_def)
  have b: "nth_opt flatSeries i = Some (flatBar i)" "nth_opt flatSeries (i + OUTCOME_HORIZON) = Some (flatBar (i + 30))"
    using assms by (simp_all add: nth_opt_def flatSeries_length flatSeries_nth OUTCOME_HORIZON_def)
  have z: "toFixed_n 2 0 = 0" by (simp add: toFixed_n_def)
  show ?thesis
    unfolding walkBar_def Let_def flat_swing [OF assms(1) i(1)] sum.case SwingPoints.simps tr pr
      flat_golden option.case b
    by (simp add: COOLDOWN_BARS_def TOUCH_TOLERANCE_def flatTouch_def flatBar_def z)
qed


lemma walk_range_flat:
  "[SWING_WINDOW ..< length flatSeries - OUTCOME_HORIZON]
     = [120, 121, 122, 123, 124, 125, 126, 127, 128, 129, 130, 131, 132, 133, 134, 135, 136, 137,
        138, 139, 140]"
  unfolding flatSeries_length SWING_WINDOW_def OUTCOME_HORIZON_def by code_simp

lemma flat_walk:
  "walk flatSeries \<lparr>touches = [], lastTouchIndex = NegInfinity\<rparr>
     [SWING_WINDOW ..< length flatSeries - OUTCOME_HORIZON]
   = Inr \<lparr>touches = [flatTouch 120, flatTouch 130, flatTouch 140], lastTouchIndex = Fin 140\<rparr>"
  unfolding walk_range_flat by (simp add: flat_walkBar num_sub_def)

lemma flat_backtest:
  "\<exists>r. backtestGoldenZone ticker flatSeries = Inr r
       \<and> br_touches r = [flatTouch 120, flatTouch 130, flatTouch 140]"
  unfolding backtestGoldenZone_def Let_def flat_walk by simp

lemma flatSeries_distinct: "distinct (map hp_date flatSeries)"
proof -
  have "inj_on (\<lambda>k. hp_date (flatBar k)) (set [0 ..< 171])"
  proof (rule inj_onI)
    fix x y
    assume "x \<in> set [0 ..< 171]" "y \<in> set [0 ..< 171]"
      and e: "hp_date (flatBar x) = hp_date (flatBar y)"
    then have "x < 999" "y < 999" by simp_all
    moreover from e have "ordinalDate x = ordinalDate y" by (simp add: flatBar_def)
    ultimately show "x = y" using ordinalDate_neq by blast
  qed
  then show ?thesis
    unfolding flatSeries_def by (simp add: distinct_map o_def)
qed

text \<open>
  Claim C8 on \<open>flatSeries\<close>: the walk visits the bars 120 to 140 and logs a touch at 120, at
  130 and at 140; the first two touches carry the dates of the bars 120 and 130.
\<close>

theorem backtest_cooldown_witness:
  "distinct (map hp_date flatSeries)
   \<and> (\<exists>r. backtestGoldenZone ''aapl'' flatSeries = Inr r
        \<and> (0 :: nat) < 1 \<and> 1 < length (br_touches r)
        \<and> 120 < length flatSeries \<and> 130 < length flatSeries
        \<and> hp_date (flatSeries ! 120) = gt_date (br_touches r ! 0)
        \<and> hp_date (flatSeries ! 130) = gt_date (br_touches r ! 1))
   \<and> 120 + COOLDOWN_BARS \<le> (130 :: nat)"
proof -
  obtain r where r: "backtestGoldenZone ''aapl'' flatSeries = Inr r"
    and t: "br_touches r = [flatTouch 120, flatTouch 130, flatTouch 140]"
    using flat_backtest by blast
  have h: "(0 :: nat) < 1" "1 < length (br_touches r)"
       "120 < length flatSeries" "130 < length flatSeries"
       "hp_date (flatSeries ! 120) = gt_date (br_touches r ! 0)"
       "hp_date (flatSeries ! 130) = gt_date (br_touches r ! 1)"
    by (simp_all add: t flatSeries_length flatSeries_nth flatBar_def flatTouch_def)
  have "120 + COOLDOWN_BARS \<le> (130 :: nat)"
    using backtest_cooldown [OF r] flatSeries_distinct h by blast
  with r h flatSeries_distinct show ?thesis by blast
qed

end
